theory Spec2Isabelle
  imports Main "HOL-Library.Word" "HOL-Library.Sublist"
begin

section \<open>JavaScript values used by the transfer core\<close>

text \<open>
  A JavaScript string is a sequence of UTF-16 code units; \<open>length\<close> counts code units,
  which is what \<open>padEnd\<close>, \<open>startsWith\<close>, \<open>slice\<close> and \<open>split\<close> count. A
  \<open>Uint8Array\<close> is modelled by its visible contents, a list of bytes. Thrown exceptions are
  values of \<open>js_error\<close>, returned on the left of a sum.
\<close>

type_synonym byte = "8 word"
type_synonym jsstring = "16 word list"

datatype js_error = RangeError | TypeError | SyntaxError | PlainError

definition js :: "string \<Rightarrow> jsstring" where
  \<comment> \<open>a string literal of the source, as code units\<close>
  "js s = map (\<lambda>c. of_nat (of_char c)) s"

definition startsWith :: "'a list \<Rightarrow> 'a list \<Rightarrow> bool" where
  "startsWith s p = (take (length p) s = p)"

fun includes_js :: "'a list \<Rightarrow> 'a list \<Rightarrow> bool" where
  "includes_js [] sub = (sub = [])"
| "includes_js (c # cs) sub = (startsWith (c # cs) sub \<or> includes_js cs sub)"

definition padEnd :: "jsstring \<Rightarrow> nat \<Rightarrow> 16 word \<Rightarrow> jsstring" where
  \<comment> \<open>\<open>s.padEnd(n, c)\<close> for a one-unit pad string: pads up to \<open>n\<close> code units\<close>
  "padEnd s n c = s @ replicate (n - length s) c"

definition strip_trailing_nuls :: "jsstring \<Rightarrow> jsstring" where
  \<comment> \<open>\<open>s.replace(/\0+$/, '')\<close>\<close>
  "strip_trailing_nuls s = rev (dropWhile (\<lambda>c. c = 0) (rev s))"

subsection \<open>TextEncoder and TextDecoder (UTF-8, WHATWG Encoding)\<close>

text \<open>
  \<open>TextEncoder.encode\<close> first converts the code units to Unicode scalar values, an unpaired
  surrogate becoming U+FFFD, and then writes each scalar value in UTF-8.
\<close>

definition is_high_surrogate :: "nat \<Rightarrow> bool" where
  "is_high_surrogate u = (0xD800 \<le> u \<and> u \<le> 0xDBFF)"

definition is_low_surrogate :: "nat \<Rightarrow> bool" where
  "is_low_surrogate u = (0xDC00 \<le> u \<and> u \<le> 0xDFFF)"

fun to_scalars :: "nat list \<Rightarrow> nat list" where
  "to_scalars [] = []"
| "to_scalars [u] = (if is_high_surrogate u \<or> is_low_surrogate u then [0xFFFD] else [u])"
| "to_scalars (u # l # rest) =
     (if is_high_surrogate u then
        (if is_low_surrogate l
         then (0x10000 + (u - 0xD800) * 0x400 + (l - 0xDC00)) # to_scalars rest
         else 0xFFFD # to_scalars (l # rest))
      else if is_low_surrogate u then 0xFFFD # to_scalars (l # rest)
      else u # to_scalars (l # rest))"

definition utf8_bytes :: "nat \<Rightarrow> nat list" where
  "utf8_bytes cp =
     (if cp < 0x80 then [cp]
      else if cp < 0x800 then [0xC0 + cp div 64, 0x80 + cp mod 64]
      else if cp < 0x10000 then
        [0xE0 + cp div 4096, 0x80 + cp div 64 mod 64, 0x80 + cp mod 64]
      else
        [0xF0 + cp div 262144, 0x80 + cp div 4096 mod 64,
         0x80 + cp div 64 mod 64, 0x80 + cp mod 64])"

definition TextEncoder_encode :: "jsstring \<Rightarrow> byte list" where
  "TextEncoder_encode s = map of_nat (concat (map utf8_bytes (to_scalars (map unat s))))"

text \<open>
  \<open>TextDecoder.decode\<close> in its default mode (UTF-8, not fatal, BOM not ignored): the decoder
  of the Encoding standard, with its \<open>bytes needed\<close>, \<open>code point\<close>, \<open>lower boundary\<close> and
  \<open>upper boundary\<close> state. A byte that cannot continue a sequence yields U+FFFD and is read
  again as the start of the next sequence. The masks \<open>byte & 0x1F\<close>, \<open>byte & 0xF\<close>,
  \<open>byte & 0x7\<close> and \<open>byte & 0x3F\<close> are written as subtractions of the lead or
  continuation marker, which is the same value on the byte ranges where they are taken.
\<close>

function utf8_dec :: "nat \<Rightarrow> nat \<Rightarrow> nat \<Rightarrow> nat \<Rightarrow> nat list \<Rightarrow> nat list" where
  "utf8_dec needed cp lo hi [] = (if needed = 0 then [] else [0xFFFD])"
| "utf8_dec needed cp lo hi (b # bs) =
     (if needed = 0 then
        (if b \<le> 0x7F then b # utf8_dec 0 0 0x80 0xBF bs
         else if 0xC2 \<le> b \<and> b \<le> 0xDF then utf8_dec 1 (b - 0xC0) 0x80 0xBF bs
         else if 0xE0 \<le> b \<and> b \<le> 0xEF then
           utf8_dec 2 (b - 0xE0) (if b = 0xE0 then 0xA0 else 0x80)
             (if b = 0xED then 0x9F else 0xBF) bs
         else if 0xF0 \<le> b \<and> b \<le> 0xF4 then
           utf8_dec 3 (b - 0xF0) (if b = 0xF0 then 0x90 else 0x80)
             (if b = 0xF4 then 0x8F else 0xBF) bs
         else 0xFFFD # utf8_dec 0 0 0x80 0xBF bs)
      else if b < lo \<or> hi < b then 0xFFFD # utf8_dec 0 0 0x80 0xBF (b # bs)
      else if needed = 1 then (cp * 64 + (b - 0x80)) # utf8_dec 0 0 0x80 0xBF bs
      else utf8_dec (needed - 1) (cp * 64 + (b - 0x80)) 0x80 0xBF bs)"
  by pat_completeness auto
termination
  by (relation "measure (\<lambda>(needed, cp, lo, hi, bs). 2 * length bs + (if needed = 0 then 0 else 1))")
     auto

definition utf8_decode :: "nat list \<Rightarrow> nat list" where
  "utf8_decode bs = utf8_dec 0 0 0x80 0xBF bs"

definition strip_bom :: "nat list \<Rightarrow> nat list" where
  "strip_bom cps = (case cps of [] \<Rightarrow> [] | c # rest \<Rightarrow> if c = 0xFEFF then rest else cps)"

definition utf16_units :: "nat \<Rightarrow> nat list" where
  "utf16_units cp =
     (if cp < 0x10000 then [cp]
      else [0xD800 + (cp - 0x10000) div 0x400, 0xDC00 + (cp - 0x10000) mod 0x400])"

definition TextDecoder_decode :: "byte list \<Rightarrow> jsstring" where
  "TextDecoder_decode bs =
     map of_nat (concat (map utf16_units (strip_bom (utf8_decode (map unat bs)))))"


section \<open>PacketFramer: the binary chunk header\<close>

definition bindE :: "'e + 'a \<Rightarrow> ('a \<Rightarrow> 'e + 'b) \<Rightarrow> 'e + 'b" where
  \<comment> \<open>sequencing of statements that may throw\<close>
  "bindE m f = (case m of Inl e \<Rightarrow> Inl e | Inr x \<Rightarrow> f x)"

definition CHUNK_SIZE :: nat where
  "CHUNK_SIZE = 16 * 1024"

definition PACKET_MAGIC :: nat where
  "PACKET_MAGIC = 0x4244544C"

definition HEADER_SIZE :: nat where
  "HEADER_SIZE = 44"

definition be32 :: "nat \<Rightarrow> byte list" where
  \<comment> \<open>the four bytes \<open>setUint32(_, v, false)\<close> writes: \<open>v\<close> modulo \<open>2^32\<close>, big-endian\<close>
  "be32 v =
     (let w = v mod 2 ^ 32
      in [of_nat (w div 2 ^ 24), of_nat (w div 2 ^ 16 mod 256),
          of_nat (w div 2 ^ 8 mod 256), of_nat (w mod 256)])"

definition read_be32 :: "byte list \<Rightarrow> nat" where
  "read_be32 bs =
     unat (bs ! 0) * 2 ^ 24 + unat (bs ! 1) * 2 ^ 16 + unat (bs ! 2) * 2 ^ 8 + unat (bs ! 3)"

definition setUint32 :: "byte list \<Rightarrow> nat \<Rightarrow> nat \<Rightarrow> js_error + byte list" where
  \<comment> \<open>\<open>DataView.setUint32(off, v, false)\<close>; out of the view's range it throws\<close>
  "setUint32 view off v =
     (if length view < off + 4 then Inl RangeError
      else Inr (take off view @ be32 v @ drop (off + 4) view))"

definition getUint32 :: "byte list \<Rightarrow> nat \<Rightarrow> js_error + nat" where
  \<comment> \<open>\<open>DataView.getUint32(off, false)\<close>\<close>
  "getUint32 view off =
     (if length view < off + 4 then Inl RangeError
      else Inr (read_be32 (take 4 (drop off view))))"

definition new_DataView :: "byte list \<Rightarrow> nat \<Rightarrow> js_error + byte list" where
  \<comment> \<open>\<open>new DataView(data.buffer, data.byteOffset, n)\<close>: the first \<open>n\<close> bytes of the array\<close>
  "new_DataView data n = (if length data < n then Inl RangeError else Inr (take n data))"

definition typed_array_set :: "byte list \<Rightarrow> byte list \<Rightarrow> nat \<Rightarrow> js_error + byte list" where
  \<comment> \<open>\<open>target.set(source, off)\<close>; a source that does not fit throws\<close>
  "typed_array_set target source off =
     (if length target < off + length source then Inl RangeError
      else Inr (take off target @ source @ drop (off + length source) target))"

definition slice_js :: "'a list \<Rightarrow> nat \<Rightarrow> nat \<Rightarrow> 'a list" where
  \<comment> \<open>\<open>xs.slice(a, b)\<close> for non-negative \<open>a\<close>, \<open>b\<close>\<close>
  "slice_js xs a b = take (b - a) (drop a xs)"

definition createPacketHeader :: "jsstring \<Rightarrow> nat \<Rightarrow> js_error + byte list" where
  "createPacketHeader fileId chunkIndex =
     (let header = replicate HEADER_SIZE 0
      in bindE (setUint32 header 0 PACKET_MAGIC) (\<lambda>h1.
           let fileIdBytes = TextEncoder_encode (padEnd fileId 36 0)
           in bindE (typed_array_set h1 fileIdBytes 4) (\<lambda>h2.
                setUint32 h2 40 chunkIndex)))"

definition parsePacketHeader :: "byte list \<Rightarrow> js_error + (jsstring \<times> nat) option" where
  "parsePacketHeader data =
     (if length data < HEADER_SIZE then Inr None
      else bindE (new_DataView data HEADER_SIZE) (\<lambda>view.
        bindE (getUint32 view 0) (\<lambda>magic.
          if magic \<noteq> PACKET_MAGIC then Inr None
          else
            let fileIdBytes = slice_js data 4 40;
                fileId = strip_trailing_nuls (TextDecoder_decode fileIdBytes)
            in bindE (getUint32 view 40) (\<lambda>chunkIndex.
                 Inr (Some (fileId, chunkIndex))))))"

subsection \<open>Messages on the data channel\<close>

record FileMetadata =
  fileId :: jsstring
  name :: jsstring
  size_bytes :: nat
  fileType :: jsstring
  chunks :: nat

text \<open>
  The eight kinds of \<open>DataMessage\<close>; \<open>OtherMessage\<close> stands for any other parsed JSON
  value that \<open>handleMessage\<close> hands to the listeners, such as a handshake envelope.
\<close>

datatype DataMessage =
    Metadata FileMetadata
  | Chunk jsstring nat "byte list"
  | End jsstring
  | Text jsstring jsstring nat
  | Ack jsstring
  | FileAccept jsstring
  | FileReject jsstring
  | FileCancel jsstring
  | OtherMessage

definition makePacket :: "jsstring \<Rightarrow> nat \<Rightarrow> byte list \<Rightarrow> js_error + byte list" where
  \<comment> \<open>the packet \<open>sendFile\<close> builds for one chunk: header, then the chunk's bytes\<close>
  "makePacket fid chunkIndex payload =
     bindE (createPacketHeader fid chunkIndex) (\<lambda>header.
       let packet = replicate (HEADER_SIZE + length payload) 0
       in bindE (typed_array_set packet header 0) (\<lambda>p1.
            typed_array_set p1 payload HEADER_SIZE))"

definition handleBinary :: "byte list \<Rightarrow> js_error + DataMessage" where
  \<comment> \<open>the binary branch of \<open>P2PConnection.handleMessage\<close>\<close>
  "handleBinary data =
     bindE (parsePacketHeader data) (\<lambda>headerInfo.
       case headerInfo of
         Some (fid, chunkIndex) \<Rightarrow> Inr (Chunk fid chunkIndex (drop HEADER_SIZE data))
       | None \<Rightarrow> Inr (Chunk [] 0 data))"

subsection \<open>Well-formed strings\<close>

definition scalar_value :: "nat \<Rightarrow> bool" where
  \<comment> \<open>a Unicode scalar value: a code point that is not a surrogate\<close>
  "scalar_value cp = (cp < 0x110000 \<and> \<not> (0xD800 \<le> cp \<and> cp \<le> 0xDFFF))"

fun well_formed_utf16 :: "nat list \<Rightarrow> bool" where
  \<comment> \<open>no unpaired surrogate among the code units\<close>
  "well_formed_utf16 [] = True"
| "well_formed_utf16 [u] = (\<not> is_high_surrogate u \<and> \<not> is_low_surrogate u)"
| "well_formed_utf16 (u # l # rest) =
     (if is_high_surrogate u then is_low_surrogate l \<and> well_formed_utf16 rest
      else \<not> is_low_surrogate u \<and> well_formed_utf16 (l # rest))"

section \<open>SignalingCodec: the SDP compressor\<close>

text \<open>
  \<open>LZString.compressToEncodedURIComponent\<close>, \<open>LZString.decompressFromEncodedURIComponent\<close>
  and \<open>atob\<close> come from outside the repository and are parameters of the model:
  \<open>lz_compress\<close> is total, \<open>lz_decompress\<close> returns \<open>None\<close> where the library returns
  null, and \<open>atob\<close> returns the decoded bytes (a binary string) or fails on input that is
  not base64.
\<close>

definition VERSION_PREFIX :: jsstring where
  "VERSION_PREFIX = js ''X1:''"

definition LEGACY_PREFIX :: jsstring where
  "LEGACY_PREFIX = js ''XTRANS:''"

fun split_nl :: "jsstring \<Rightarrow> jsstring list" where
  \<comment> \<open>\<open>sdp.split('\n')\<close>\<close>
  "split_nl [] = [[]]"
| "split_nl (c # cs) =
     (if c = 0x0A then [] # split_nl cs
      else (case split_nl cs of [] \<Rightarrow> [[c]] | l # ls \<Rightarrow> (c # l) # ls))"

fun join_nl :: "jsstring list \<Rightarrow> jsstring" where
  \<comment> \<open>\<open>lines.join('\n')\<close>\<close>
  "join_nl [] = []"
| "join_nl [l] = l"
| "join_nl (l # ls) = l @ [0x0A] @ join_nl ls"

definition is_candidate :: "jsstring \<Rightarrow> bool" where
  "is_candidate line = startsWith line (js ''a=candidate:'')"

definition is_host :: "jsstring \<Rightarrow> bool" where
  "is_host line = includes_js line (js ''typ host'')"

definition is_srflx :: "jsstring \<Rightarrow> bool" where
  "is_srflx line = includes_js line (js ''typ srflx'')"

definition is_relay :: "jsstring \<Rightarrow> bool" where
  "is_relay line = includes_js line (js ''typ relay'')"

definition maxHostCandidates :: nat where
  "maxHostCandidates = 2"

fun filter_candidates :: "nat \<Rightarrow> jsstring list \<Rightarrow> jsstring list" where
  \<comment> \<open>\<open>lines.filter(...)\<close> with the callback's counter \<open>hostCount\<close> threaded through\<close>
  "filter_candidates hostCount [] = []"
| "filter_candidates hostCount (line # rest) =
     (if is_candidate line then
        (if is_host line then
           (if hostCount + 1 \<le> maxHostCandidates
            then line # filter_candidates (hostCount + 1) rest
            else filter_candidates (hostCount + 1) rest)
         else if is_srflx line then line # filter_candidates hostCount rest
         else if is_relay line then line # filter_candidates hostCount rest
         else filter_candidates hostCount rest)
      else line # filter_candidates hostCount rest)"

definition optimizeSDP :: "jsstring \<Rightarrow> jsstring" where
  "optimizeSDP sdp = join_nl (filter_candidates 0 (split_nl sdp))"

definition compress :: "(jsstring \<Rightarrow> jsstring) \<Rightarrow> jsstring \<Rightarrow> jsstring" where
  "compress lz_compress sdp = VERSION_PREFIX @ lz_compress (optimizeSDP sdp)"

definition js_whitespace :: "16 word \<Rightarrow> bool" where
  \<comment> \<open>the white space and line terminators \<open>String.prototype.trim\<close> removes\<close>
  "js_whitespace c =
     (c \<in> {0x09, 0x0A, 0x0B, 0x0C, 0x0D, 0x20, 0xA0, 0x1680, 0x2028, 0x2029, 0x202F, 0x205F,
            0x3000, 0xFEFF}
      \<or> (0x2000 \<le> c \<and> c \<le> 0x200A))"

definition trim :: "jsstring \<Rightarrow> jsstring" where
  "trim s = rev (dropWhile js_whitespace (rev (dropWhile js_whitespace s)))"

definition decompressLegacy :: "(jsstring \<Rightarrow> js_error + byte list) \<Rightarrow> jsstring \<Rightarrow> jsstring option" where
  "decompressLegacy atob code =
     (let base64 = drop (length LEGACY_PREFIX) code
      in case atob base64 of
           Inl e \<Rightarrow> None
         | Inr bytes \<Rightarrow> Some (TextDecoder_decode bytes))"

definition decompress_try ::
  "(jsstring \<Rightarrow> jsstring option) \<Rightarrow> (jsstring \<Rightarrow> js_error + byte list) \<Rightarrow> jsstring
    \<Rightarrow> js_error + jsstring option" where
  \<comment> \<open>the body of the \<open>try\<close> block of \<open>decompress\<close>\<close>
  "decompress_try lz_decompress atob code =
     (if startsWith code VERSION_PREFIX then
        (let compressed = drop (length VERSION_PREFIX) code
         in case lz_decompress compressed of
              None \<Rightarrow> Inl PlainError
            | Some decompressed \<Rightarrow>
                if decompressed = [] then Inl PlainError else Inr (Some decompressed))
      else if startsWith code LEGACY_PREFIX then Inr (decompressLegacy atob code)
      else if startsWith (trim code) (js ''{'') then Inr (Some (trim code))
      else Inr None)"

definition decompress ::
  "(jsstring \<Rightarrow> jsstring option) \<Rightarrow> (jsstring \<Rightarrow> js_error + byte list) \<Rightarrow> jsstring
    \<Rightarrow> jsstring option" where
  \<comment> \<open>\<open>None\<close> is the null the source returns on failure\<close>
  "decompress lz_decompress atob code =
     (case decompress_try lz_decompress atob code of Inl e \<Rightarrow> None | Inr r \<Rightarrow> r)"

definition isCompressed :: "jsstring \<Rightarrow> bool" where
  "isCompressed code = startsWith code VERSION_PREFIX"

section \<open>PeerTransport: sending and receiving a file\<close>

subsection \<open>sendFile\<close>

text \<open>
  What \<open>sendFile\<close> cannot decide by itself is given by an environment: whether the
  connection is ready at each check, the random fileId, how the receiver answers the
  metadata, whether the cancel message after an accept timeout can still be sent, and for
  each chunk whether the channel is still open, whether the send queue
  ever drains below the backpressure threshold, and whether the send succeeds. The model
  returns how the call ends and what it did on the way: the messages put on the wire and
  the calls of the progress callback, with the transferred and the total byte counts (the
  speed, a quotient of wall-clock times, is left out). A call that waits forever in the
  backpressure loop ends as \<open>Hangs\<close>.
\<close>

datatype answer = Accepted | Rejected | AcceptTimeout

datatype chunk_step = ChunkSent | ConnectionLost | SendFails | NeverDrains

record send_env =
  isReady :: bool
  randomId :: jsstring
  metadataCheck :: bool
  receiverAnswer :: answer
  cancelSent :: bool
  acceptedCheck :: bool
  chunkStep :: "nat \<Rightarrow> chunk_step"
  endCheck :: bool

datatype wire = WireJson DataMessage | WireBinary "byte list"

datatype send_effect = OnWire wire | Progress nat nat

datatype send_outcome = Returned jsstring | Threw js_error | Hangs

datatype loop_end = LoopDone | LoopThrew js_error | LoopHangs

function send_chunks ::
  "(nat \<Rightarrow> chunk_step) \<Rightarrow> bool \<Rightarrow> jsstring \<Rightarrow> byte list \<Rightarrow> nat \<Rightarrow> nat \<Rightarrow> send_effect list
    \<Rightarrow> loop_end \<times> send_effect list" where
  \<comment> \<open>the loop \<open>while (offset < fileSize)\<close>\<close>
  "send_chunks step onProgress fid file offset chunkIndex done =
     (if offset < length file then
        (case step chunkIndex of
           ConnectionLost \<Rightarrow> (LoopThrew PlainError, done)
         | other \<Rightarrow>
            (let chunk = slice_js file offset (offset + CHUNK_SIZE)
             in case makePacket fid chunkIndex chunk of
                  Inl e \<Rightarrow> (LoopThrew e, done)
                | Inr packet \<Rightarrow>
                    (case other of
                       NeverDrains \<Rightarrow> (LoopHangs, done)
                     | SendFails \<Rightarrow> (LoopThrew PlainError, done)
                     | _ \<Rightarrow>
                        send_chunks step onProgress fid file (offset + CHUNK_SIZE)
                          (chunkIndex + 1)
                          (done @ [OnWire (WireBinary packet)]
                                @ (if onProgress then [Progress (offset + CHUNK_SIZE) (length file)]
                                   else [])))))
      else (LoopDone, done))"
  by pat_completeness auto
termination
  by (relation "measure (\<lambda>(step, onProgress, fid, file, offset, chunkIndex, done). length file - offset)")
     (auto simp: CHUNK_SIZE_def)

declare send_chunks.simps [simp del]

definition ceil_div :: "nat \<Rightarrow> nat \<Rightarrow> nat" where
  \<comment> \<open>\<open>Math.ceil(a / b)\<close> for non-negative integers\<close>
  "ceil_div a b = (a + b - 1) div b"

definition sendFile ::
  "send_env \<Rightarrow> jsstring \<Rightarrow> jsstring \<Rightarrow> byte list \<Rightarrow> bool \<Rightarrow> send_outcome \<times> send_effect list" where
  "sendFile env fname ftype file onProgress =
     (if \<not> isReady env then (Threw PlainError, [])
      else
        let fid = randomId env;
            metadata = \<lparr>fileId = fid, name = fname, size_bytes = length file, fileType = ftype,
                        chunks = ceil_div (length file) CHUNK_SIZE\<rparr>
        in if \<not> metadataCheck env then (Threw PlainError, [])
           else
             let sent = [OnWire (WireJson (Metadata metadata))]
             in case receiverAnswer env of
                  AcceptTimeout \<Rightarrow>
                    (Threw PlainError,
                     sent @ (if cancelSent env then [OnWire (WireJson (FileCancel fid))] else []))
                | Rejected \<Rightarrow> (Threw PlainError, sent)
                | Accepted \<Rightarrow>
                    if \<not> acceptedCheck env then (Threw PlainError, sent)
                    else
                      (case send_chunks (chunkStep env) onProgress fid file 0 0 sent of
                         (LoopThrew e, done) \<Rightarrow> (Threw e, done)
                       | (LoopHangs, done) \<Rightarrow> (Hangs, done)
                       | (LoopDone, done) \<Rightarrow>
                           if \<not> endCheck env then (Threw PlainError, done)
                           else (Returned fid, done @ [OnWire (WireJson (End fid))])))"

fun progress_reports :: "send_effect list \<Rightarrow> (nat \<times> nat) list" where
  "progress_reports [] = []"
| "progress_reports (Progress transferred whole # es) = (transferred, whole) # progress_reports es"
| "progress_reports (OnWire w # es) = progress_reports es"

subsection \<open>receiveFile\<close>

text \<open>
  The promise returned by \<open>receiveFile\<close> and the variables its listener closes over are a
  record. The session sees the messages dispatched to its listener and the firing of its
  300 second timer. A \<open>File\<close> is its name, its type and its bytes.
\<close>

record js_file =
  file_name :: jsstring
  file_type :: jsstring
  file_bytes :: "byte list"

datatype settlement = Resolved js_file FileMetadata | TimedOut

record receive_session =
  rs_metadata :: "FileMetadata option"
  rs_chunks :: "byte list list"
  rs_receivedSize :: nat
  rs_listening :: bool
  rs_settled :: "settlement option"
  rs_progress :: "(nat \<times> nat) list"

datatype receive_event = Msg DataMessage | TimerFired

definition receiveFile :: "FileMetadata option \<Rightarrow> receive_session" where
  \<comment> \<open>the session right after the call: \<open>metadata = initialMetadata || null\<close>\<close>
  "receiveFile initialMetadata =
     \<lparr>rs_metadata = initialMetadata, rs_chunks = [], rs_receivedSize = 0, rs_listening = True,
      rs_settled = None, rs_progress = []\<rparr>"

fun listener :: "jsstring \<Rightarrow> bool \<Rightarrow> DataMessage \<Rightarrow> receive_session \<Rightarrow> receive_session" where
  "listener fid onProgress (Metadata m) s =
     (if fileId m \<noteq> fid then s
      else s\<lparr>rs_metadata := Some m, rs_chunks := [], rs_receivedSize := 0\<rparr>)"
| "listener fid onProgress (Chunk f i bytes) s =
     (if f \<noteq> fid then s
      else (case rs_metadata s of
              None \<Rightarrow> s
            | Some m \<Rightarrow>
                let received = rs_receivedSize s + length bytes
                in s\<lparr>rs_chunks := rs_chunks s @ [bytes], rs_receivedSize := received,
                     rs_progress := rs_progress s @ (if onProgress then [(received, size_bytes m)] else [])\<rparr>))"
| "listener fid onProgress (End f) s =
     (if f \<noteq> fid then s
      else (case rs_metadata s of
              None \<Rightarrow> s
            | Some m \<Rightarrow>
                s\<lparr>rs_listening := False,
                  rs_settled :=
                    (case rs_settled s of
                       None \<Rightarrow> Some (Resolved \<lparr>file_name = name m, file_type = fileType m,
                                                file_bytes = concat (rs_chunks s)\<rparr> m)
                     | Some r \<Rightarrow> Some r)\<rparr>))"
| "listener fid onProgress other s = s"

fun receive_step :: "jsstring \<Rightarrow> bool \<Rightarrow> receive_session \<Rightarrow> receive_event \<Rightarrow> receive_session" where
  "receive_step fid onProgress s (Msg m) = (if rs_listening s then listener fid onProgress m s else s)"
| "receive_step fid onProgress s TimerFired =
     s\<lparr>rs_listening := False,
       rs_settled := (case rs_settled s of None \<Rightarrow> Some TimedOut | Some r \<Rightarrow> Some r)\<rparr>"

definition receive_run ::
  "jsstring \<Rightarrow> bool \<Rightarrow> FileMetadata option \<Rightarrow> receive_event list \<Rightarrow> receive_session" where
  "receive_run fid onProgress initialMetadata events =
     foldl (receive_step fid onProgress) (receiveFile initialMetadata) events"

fun is_metadata_for :: "jsstring \<Rightarrow> receive_event \<Rightarrow> bool" where
  "is_metadata_for fid (Msg (Metadata m)) = (fileId m = fid)"
| "is_metadata_for fid e = False"

fun chunk_bytes :: "jsstring \<Rightarrow> receive_event list \<Rightarrow> byte list list" where
  \<comment> \<open>the payloads of the chunk messages for \<open>fid\<close>, in order\<close>
  "chunk_bytes fid [] = []"
| "chunk_bytes fid (Msg (Chunk f i bytes) # es) =
     (if f = fid then bytes # chunk_bytes fid es else chunk_bytes fid es)"
| "chunk_bytes fid (e # es) = chunk_bytes fid es"

section \<open>HybridConnectionManager\<close>

subsection \<open>Untyped values\<close>

text \<open>
  The manager's message handlers take \<open>any\<close>: a string, an object parsed from JSON, or an
  \<open>ArrayBuffer\<close>. \<open>JSON.parse\<close> is a parameter, total on strings, with \<open>Inl\<close> for the
  \<open>SyntaxError\<close> it throws. Numbers are integers here; no claim depends on fractions.
\<close>

datatype jsval =
    JUndefined
  | JNull
  | JBool bool
  | JNum int
  | JStr jsstring
  | JArr "jsval list"
  | JObj "(jsstring \<times> jsval) list"
  | JBuffer "byte list"

fun truthy :: "jsval \<Rightarrow> bool" where
  "truthy JUndefined = False"
| "truthy JNull = False"
| "truthy (JBool b) = b"
| "truthy (JNum n) = (n \<noteq> 0)"
| "truthy (JStr s) = (s \<noteq> [])"
| "truthy v = True"

fun is_object :: "jsval \<Rightarrow> bool" where
  \<comment> \<open>\<open>typeof v === 'object'\<close>\<close>
  "is_object JNull = True"
| "is_object (JArr xs) = True"
| "is_object (JObj fs) = True"
| "is_object (JBuffer bs) = True"
| "is_object v = False"

fun has_prop :: "jsval \<Rightarrow> jsstring \<Rightarrow> bool" where
  \<comment> \<open>\<open>key in v\<close> for an object \<open>v\<close> and a key that no prototype defines\<close>
  "has_prop (JObj fs) key = (key \<in> fst ` set fs)"
| "has_prop v key = False"

fun obj_get :: "jsval \<Rightarrow> jsstring \<Rightarrow> jsval" where
  \<comment> \<open>\<open>v.key\<close> for \<open>v\<close> neither null nor undefined\<close>
  "obj_get (JObj fs) key = (case map_of fs key of Some v \<Rightarrow> v | None \<Rightarrow> JUndefined)"
| "obj_get v key = JUndefined"

fun get_prop :: "jsval \<Rightarrow> jsstring \<Rightarrow> js_error + jsval" where
  \<comment> \<open>\<open>v.key\<close>: reading a property of null or undefined throws\<close>
  "get_prop JUndefined key = Inl TypeError"
| "get_prop JNull key = Inl TypeError"
| "get_prop v key = Inr (obj_get v key)"

fun js_startsWith :: "jsval \<Rightarrow> jsstring \<Rightarrow> js_error + bool" where
  \<comment> \<open>\<open>v.startsWith(p)\<close>: only a string has the method\<close>
  "js_startsWith (JStr s) p = Inr (startsWith s p)"
| "js_startsWith v p = Inl TypeError"

subsection \<open>Message classification\<close>

definition envelope_types :: "jsval list" where
  "envelope_types = [JStr (js ''text''), JStr (js ''file''), JStr (js ''control''),
                     JStr (js ''handshake'')]"

definition low_level_types :: "jsval list" where
  "low_level_types = [JStr (js ''metadata''), JStr (js ''chunk''), JStr (js ''end''),
                      JStr (js ''ack''), JStr (js ''file_accept''), JStr (js ''file_reject''),
                      JStr (js ''file_cancel'')]"

definition getMessageType :: "(jsstring \<Rightarrow> js_error + jsval) \<Rightarrow> jsval \<Rightarrow> jsval" where
  "getMessageType JSON_parse message =
     (let from_string =
            (case message of
               JStr s \<Rightarrow>
                 (case bindE (JSON_parse s) (\<lambda>parsed. get_prop parsed (js ''type'')) of
                    Inl e \<Rightarrow> Some (JStr (js ''text''))
                  | Inr t \<Rightarrow> if t \<in> set envelope_types then Some t else None)
             | _ \<Rightarrow> None)
      in case from_string of
           Some t \<Rightarrow> t
         | None \<Rightarrow>
             if truthy message \<and> is_object message \<and> has_prop message (js ''type'') then
               (if obj_get message (js ''type'') \<in> set low_level_types then JStr (js ''file'')
                else obj_get message (js ''type''))
             else JStr (js ''file''))"

subsection \<open>The registry and its events\<close>

text \<open>
  The three maps of the manager are keyed by whatever value the code uses as a key; for the
  strings the types promise, \<open>Map\<close> compares keys as HOL compares them. A connection is an
  instance of one of the two connection classes. Calls of event listeners and of
  registered message handlers are recorded in a trace, an event together with the registry
  as the listener finds it; listeners and handlers are observers and do not call back into
  the manager. \<open>Date.now()\<close> and the random message id are arguments. A
  \<open>ConnectionState\<close> is a value: the source updates the stored object in place, and an
  event published earlier shares that object.
\<close>

datatype ConnectionType = WEBRTC | WEBSOCKET | HYBRID

datatype Status = StConnecting | StConnected | StFailed | StDisconnected

record ConnectionState =
  cs_type :: ConnectionType
  cs_status :: Status
  cs_deviceId :: jsval
  cs_latency :: "int option"
  cs_lastActive :: int

record ConnectionStrategy =
  preferredType :: ConnectionType
  fallbackTypes :: "ConnectionType list"
  timeout :: int
  retryAttempts :: nat

datatype connection = P2PConnection nat | WebSocketConnection nat

record P2PMessage =
  pm_type :: jsval
  pm_data :: jsval
  pm_timestamp :: int
  pm_id :: jsstring

datatype EventType = ConnectionStateChanged | MessageReceived | HandshakeReceived

record ConnectionEvent =
  ev_type :: EventType
  ev_deviceId :: jsval
  ev_state :: "ConnectionState option"
  ev_message :: "P2PMessage option"

record registry =
  connections :: "jsval \<rightharpoonup> connection"
  connectionStates :: "jsval \<rightharpoonup> ConnectionState"
  messageHandlers :: "jsval \<rightharpoonup> nat"

datatype effect =
    Emitted ConnectionEvent registry
  | Delivered nat P2PMessage
  | Attempted ConnectionType
  | HandshakeSent jsval

record manager =
  reg :: registry
  trace :: "effect list"

definition emitEvent :: "ConnectionEvent \<Rightarrow> manager \<Rightarrow> manager" where
  "emitEvent ev mgr = mgr\<lparr>trace := trace mgr @ [Emitted ev (reg mgr)]\<rparr>"

definition getConnectionState :: "manager \<Rightarrow> jsval \<Rightarrow> ConnectionState option" where
  "getConnectionState mgr deviceId = connectionStates (reg mgr) deviceId"

definition lookupP2PConnection :: "manager \<Rightarrow> jsval \<Rightarrow> js_error + connection" where
  \<comment> \<open>the lookup at the head of \<open>receiveFile\<close> and \<open>finalizeManualConnection\<close>\<close>
  "lookupP2PConnection mgr deviceId =
     (case connections (reg mgr) deviceId of
        Some (P2PConnection n) \<Rightarrow> Inr (P2PConnection n)
      | _ \<Rightarrow> Inl PlainError)"

subsection \<open>Manual connections\<close>


definition stateChanged :: "jsval \<Rightarrow> ConnectionState \<Rightarrow> ConnectionEvent" where
  "stateChanged deviceId state =
     \<lparr>ev_type = ConnectionStateChanged, ev_deviceId = deviceId, ev_state = Some state,
      ev_message = None\<rparr>"


subsection \<open>The message listener of setupConnectionHandlers\<close>

definition handshakeReceived :: "jsval \<Rightarrow> jsval \<Rightarrow> int \<Rightarrow> ConnectionEvent" where
  "handshakeReceived realDeviceId handshakeData now =
     \<lparr>ev_type = HandshakeReceived, ev_deviceId = realDeviceId, ev_state = None,
      ev_message = Some \<lparr>pm_type = JStr (js ''handshake''), pm_data = handshakeData,
                         pm_timestamp = now, pm_id = []\<rparr>\<rparr>"

definition dispatch :: "jsval \<Rightarrow> P2PMessage \<Rightarrow> manager \<Rightarrow> manager" where
  \<comment> \<open>the end of the listener: the device's handler if there is one, else the general event\<close>
  "dispatch currentDeviceId msg mgr =
     (case messageHandlers (reg mgr) currentDeviceId of
        Some handler \<Rightarrow> mgr\<lparr>trace := trace mgr @ [Delivered handler msg]\<rparr>
      | None \<Rightarrow>
          emitEvent \<lparr>ev_type = MessageReceived, ev_deviceId = currentDeviceId, ev_state = None,
                     ev_message = Some msg\<rparr> mgr)"

definition remap :: "jsval \<Rightarrow> jsval \<Rightarrow> connection \<Rightarrow> jsval \<Rightarrow> int \<Rightarrow> manager \<Rightarrow> manager" where
  \<comment> \<open>the branch \<open>if (currentDeviceId.startsWith('manual-'))\<close>, statement by statement\<close>
  "remap currentDeviceId realDeviceId conn handshakeData now mgr =
     (let r = reg mgr;
          conns = ((connections r)(realDeviceId \<mapsto> conn))(currentDeviceId := None);
          states =
            (case connectionStates r currentDeviceId of
               None \<Rightarrow> connectionStates r
             | Some state \<Rightarrow>
                 ((connectionStates r)(realDeviceId \<mapsto> state\<lparr>cs_deviceId := realDeviceId\<rparr>))
                   (currentDeviceId := None));
          mgr1 = emitEvent (handshakeReceived realDeviceId handshakeData now)
                   (mgr\<lparr>reg := r\<lparr>connections := conns, connectionStates := states\<rparr>\<rparr>);
          handlers =
            (case messageHandlers r currentDeviceId of
               None \<Rightarrow> messageHandlers r
             | Some handler \<Rightarrow>
                 ((messageHandlers r)(realDeviceId \<mapsto> handler))(currentDeviceId := None))
      in mgr1\<lparr>reg := (reg mgr1)\<lparr>messageHandlers := handlers\<rparr>\<rparr>)"

definition onConnectionMessage ::
  "(jsstring \<Rightarrow> js_error + jsval) \<Rightarrow> int \<Rightarrow> jsstring \<Rightarrow> connection \<Rightarrow> jsval
     \<Rightarrow> jsval \<times> manager \<Rightarrow> js_error + jsval \<times> manager" where
  \<comment> \<open>one call of the listener; the closure variable \<open>currentDeviceId\<close> is part of the state\<close>
  "onConnectionMessage JSON_parse now newId conn message st =
     (let (currentDeviceId, mgr) = st;
          msgType = getMessageType JSON_parse message;
          msg = \<lparr>pm_type = msgType, pm_data = message, pm_timestamp = now, pm_id = newId\<rparr>
      in if msgType = JStr (js ''handshake'') then
           bindE (case message of
                    JStr s \<Rightarrow> bindE (JSON_parse s) (\<lambda>parsed. get_prop parsed (js ''data''))
                  | _ \<Rightarrow> get_prop message (js ''data''))
             (\<lambda>handshakeData.
                if truthy handshakeData \<and> truthy (obj_get handshakeData (js ''deviceId'')) then
                  (let realDeviceId = obj_get handshakeData (js ''deviceId'')
                   in bindE (js_startsWith currentDeviceId (js ''manual-'')) (\<lambda>provisional.
                        if provisional then
                          Inr (realDeviceId,
                               remap currentDeviceId realDeviceId conn handshakeData now mgr)
                        else
                          Inr (currentDeviceId,
                               dispatch currentDeviceId msg
                                 (emitEvent (handshakeReceived realDeviceId handshakeData now) mgr))))
                else Inr (currentDeviceId, dispatch currentDeviceId msg mgr))
         else Inr (currentDeviceId, dispatch currentDeviceId msg mgr))"

subsection \<open>connectToDevice\<close>

text \<open>
  Whether a connection attempt opens a connection or ends in a failure or its timeout is
  decided outside the manager: attempt number \<open>i\<close> of a call (0 for the preferred kind,
  \<open>j + 1\<close> for fallback \<open>j\<close>) has the outcome \<open>env i\<close>: \<open>Opens conn now\<close> when the
  connection reports that it is open, at time \<open>now\<close>, and reports nothing after that;
  \<open>NoConnection\<close> when it reports a failure or the timeout fires first. An attempt's
  promise stays unsettled when the callback that would resolve it throws: the timeout is
  cleared before, and the exception ends in the caller of the callback.
\<close>

datatype attempt_result = Opens connection int | NoConnection

datatype 'a promise = Settles 'a | Rejects js_error | Unsettled

definition tryWebRTCConnection ::
  "jsval \<Rightarrow> attempt_result \<Rightarrow> manager \<Rightarrow> bool promise \<times> manager" where
  "tryWebRTCConnection deviceId outcome mgr =
     (case outcome of
        NoConnection \<Rightarrow> (Settles False, mgr)
      | Opens conn now \<Rightarrow>
          (let r = reg mgr; mgr1 = mgr\<lparr>reg := r\<lparr>connections := (connections r)(deviceId \<mapsto> conn)\<rparr>\<rparr>
           in case connectionStates r deviceId of
                None \<Rightarrow> (Unsettled, mgr1)
              | Some state \<Rightarrow>
                  (Settles True,
                   mgr1\<lparr>reg := (reg mgr1)\<lparr>connectionStates := (connectionStates r)
                      (deviceId \<mapsto> state\<lparr>cs_type := WEBRTC,
                                           cs_latency := Some (now - cs_lastActive state)\<rparr>)\<rparr>\<rparr>)))"

text \<open>
  The \<open>onOpen\<close> callback of \<open>tryWebSocketConnection\<close> calls
  \<open>this.setupWebSocketHandlers(deviceId, wsConnection)\<close>. The class
  \<open>HybridConnectionManager\<close> declares no member of that name and extends no class, so
  the property is undefined and the call throws a \<open>TypeError\<close>, after
  \<open>clearTimeout\<close> and \<open>connections.set\<close> and before the state is updated and the
  promise resolved.
\<close>

definition setupWebSocketHandlers :: "jsval \<Rightarrow> connection \<Rightarrow> manager \<Rightarrow> js_error + manager" where
  "setupWebSocketHandlers deviceId wsConnection mgr = Inl TypeError"

definition tryWebSocketConnection ::
  "jsval \<Rightarrow> attempt_result \<Rightarrow> manager \<Rightarrow> bool promise \<times> manager" where
  "tryWebSocketConnection deviceId outcome mgr =
     (case outcome of
        NoConnection \<Rightarrow> (Settles False, mgr)
      | Opens conn now \<Rightarrow>
          (let r = reg mgr; mgr1 = mgr\<lparr>reg := r\<lparr>connections := (connections r)(deviceId \<mapsto> conn)\<rparr>\<rparr>
           in case setupWebSocketHandlers deviceId conn mgr1 of
                Inl e \<Rightarrow> (Unsettled, mgr1)
              | Inr mgr2 \<Rightarrow>
                  (case connectionStates (reg mgr2) deviceId of
                     None \<Rightarrow> (Unsettled, mgr2)
                   | Some state \<Rightarrow>
                       (Settles True,
                        mgr2\<lparr>reg := (reg mgr2)\<lparr>connectionStates := (connectionStates (reg mgr2))
                           (deviceId \<mapsto> state\<lparr>cs_type := WEBSOCKET,
                                                cs_latency := Some (now - cs_lastActive state)\<rparr>)\<rparr>\<rparr>))))"

definition tryConnection ::
  "jsval \<Rightarrow> ConnectionType \<Rightarrow> attempt_result \<Rightarrow> manager \<Rightarrow> bool promise \<times> manager" where
  "tryConnection deviceId kind outcome mgr =
     (let mgr0 = mgr\<lparr>trace := trace mgr @ [Attempted kind]\<rparr>
      in case kind of
           WEBRTC \<Rightarrow> tryWebRTCConnection deviceId outcome mgr0
         | WEBSOCKET \<Rightarrow> tryWebSocketConnection deviceId outcome mgr0
         | HYBRID \<Rightarrow> (Settles False, mgr0))"

fun try_fallbacks ::
  "(nat \<Rightarrow> attempt_result) \<Rightarrow> jsval \<Rightarrow> nat \<Rightarrow> ConnectionType list \<Rightarrow> manager
     \<Rightarrow> bool promise \<times> manager" where
  \<comment> \<open>the loop \<open>for (const fallbackType of this.strategy.fallbackTypes)\<close>\<close>
  "try_fallbacks env deviceId i [] mgr = (Settles False, mgr)"
| "try_fallbacks env deviceId i (fallbackType # rest) mgr =
     (case tryConnection deviceId fallbackType (env i) mgr of
        (Settles True, mgr') \<Rightarrow> (Settles True, mgr')
      | (Settles False, mgr') \<Rightarrow> try_fallbacks env deviceId (i + 1) rest mgr'
      | (other, mgr') \<Rightarrow> (other, mgr'))"

definition finish_connect :: "jsval \<Rightarrow> bool \<Rightarrow> manager \<Rightarrow> bool promise \<times> manager" where
  \<comment> \<open>the last \<open>if (success)\<close> of \<open>connectToDevice\<close>\<close>
  "finish_connect deviceId success mgr =
     (case connectionStates (reg mgr) deviceId of
        None \<Rightarrow> (Rejects TypeError, mgr)
      | Some state \<Rightarrow>
          (let state' = state\<lparr>cs_status := (if success then StConnected else StFailed)\<rparr>;
               r = reg mgr;
               mgr1 = mgr\<lparr>reg := r\<lparr>connectionStates := (connectionStates r)(deviceId \<mapsto> state')\<rparr>\<rparr>
           in (Settles success, emitEvent (stateChanged deviceId state') mgr1)))"

definition has_active_connection :: "manager \<Rightarrow> jsval \<Rightarrow> bool" where
  \<comment> \<open>\<open>existingConnection && existingState && existingState.status === 'connected'\<close>\<close>
  "has_active_connection mgr deviceId =
     (case (connections (reg mgr) deviceId, connectionStates (reg mgr) deviceId) of
        (Some conn, Some state) \<Rightarrow> cs_status state = StConnected
      | _ \<Rightarrow> False)"

definition connectToDevice ::
  "ConnectionStrategy \<Rightarrow> (nat \<Rightarrow> attempt_result) \<Rightarrow> int \<Rightarrow> jsval \<Rightarrow> manager
     \<Rightarrow> bool promise \<times> manager" where
  "connectToDevice strategy env now deviceId mgr =
     (if has_active_connection mgr deviceId then (Settles True, mgr)
      else
        let state = \<lparr>cs_type = preferredType strategy, cs_status = StConnecting,
                     cs_deviceId = deviceId, cs_latency = None, cs_lastActive = now\<rparr>;
            r = reg mgr;
            mgr1 = emitEvent (stateChanged deviceId state)
                     (mgr\<lparr>reg := r\<lparr>connectionStates := (connectionStates r)(deviceId \<mapsto> state)\<rparr>\<rparr>)
        in case tryConnection deviceId (preferredType strategy) (env 0) mgr1 of
             (Settles True, mgr2) \<Rightarrow> finish_connect deviceId True mgr2
           | (Settles False, mgr2) \<Rightarrow>
               (case try_fallbacks env deviceId 1 (fallbackTypes strategy) mgr2 of
                  (Settles success, mgr3) \<Rightarrow> finish_connect deviceId success mgr3
                | (other, mgr3) \<Rightarrow> (other, mgr3))
           | (other, mgr2) \<Rightarrow> (other, mgr2))"


section \<open>Properties of the text codec and the packet framer\<close>

subsection \<open>Auxiliary facts\<close>

lemma utf8_bytes_0: "utf8_bytes 0 = [0]" by (simp add: utf8_bytes_def)

lemma to_scalars_0_Cons: "to_scalars (0 # xs) = 0 # to_scalars xs"
  by (cases xs) (simp_all add: is_high_surrogate_def is_low_surrogate_def)

lemma to_scalars_replicate_0: "to_scalars (replicate k 0) = replicate k 0"
  by (induction k) (simp_all add: to_scalars_0_Cons)

lemma to_scalars_pad: "to_scalars (us @ replicate k 0) = to_scalars us @ replicate k 0"
proof (induction us rule: to_scalars.induct)
  case 1
  show ?case by (simp add: to_scalars_replicate_0)
next
  case (2 u)
  show ?case
    by (cases k) (simp_all add: to_scalars_0_Cons to_scalars_replicate_0 is_low_surrogate_def)
next
  case (3 u l rest)
  then show ?case by auto
qed

lemma encode_pad:
  "TextEncoder_encode (s @ replicate k 0) = TextEncoder_encode s @ replicate k 0"
proof -
  have "concat (map utf8_bytes (replicate k 0)) = replicate k 0"
    by (induction k) (simp_all add: utf8_bytes_0)
  then show ?thesis
    by (simp add: TextEncoder_encode_def to_scalars_pad)
qed

lemma length_be32: "length (be32 v) = 4" by (simp add: be32_def Let_def)

lemma createPacketHeader_eq:
  "createPacketHeader fid ci =
     (let fb = TextEncoder_encode (padEnd fid 36 0)
      in if 40 < length fb then Inl RangeError
         else Inr (be32 PACKET_MAGIC @ take 36 (fb @ replicate 36 0) @ be32 ci))"
  by (auto simp add: createPacketHeader_def Let_def bindE_def setUint32_def typed_array_set_def
      HEADER_SIZE_def length_be32 min_def)

lemma dec2: "2 \<le> h \<Longrightarrow> h < 32 \<Longrightarrow> l < 64 \<Longrightarrow>
  utf8_dec 0 0 0x80 0xBF ((0xC0 + h) # (0x80 + l) # rest) = (h * 64 + l) # utf8_dec 0 0 0x80 0xBF rest"
  by simp

lemma dec3: "h < 16 \<Longrightarrow> m < 64 \<Longrightarrow> l < 64 \<Longrightarrow> (h = 0 \<longrightarrow> 32 \<le> m) \<Longrightarrow> (h = 13 \<longrightarrow> m < 32) \<Longrightarrow>
  utf8_dec 0 0 0x80 0xBF ((0xE0 + h) # (0x80 + m) # (0x80 + l) # rest)
    = ((h * 64 + m) * 64 + l) # utf8_dec 0 0 0x80 0xBF rest"
  by auto

lemma dec4: "h \<le> 4 \<Longrightarrow> k < 64 \<Longrightarrow> m < 64 \<Longrightarrow> l < 64 \<Longrightarrow> (h = 0 \<longrightarrow> 16 \<le> k) \<Longrightarrow> (h = 4 \<longrightarrow> k < 16) \<Longrightarrow>
  utf8_dec 0 0 0x80 0xBF ((0xF0 + h) # (0x80 + k) # (0x80 + m) # (0x80 + l) # rest)
    = (((h * 64 + k) * 64 + m) * 64 + l) # utf8_dec 0 0 0x80 0xBF rest"
  by auto

lemma utf8_bytes_2:
  assumes "0x80 \<le> cp" "cp < 0x800"
  shows "\<exists>h l. utf8_bytes cp = [0xC0 + h, 0x80 + l] \<and> 2 \<le> h \<and> h < 32 \<and> l < 64 \<and> cp = h * 64 + l"
proof -
  define h where "h = cp div 64"
  define l where "l = cp mod 64"
  have a: "cp = h * 64 + l" "l < 64" by (simp_all add: h_def l_def)
  have "2 \<le> h" "h < 32" using a assms by linarith+
  moreover have "utf8_bytes cp = [0xC0 + h, 0x80 + l]"
    using assms by (simp add: utf8_bytes_def h_def l_def)
  ultimately show ?thesis using a by blast
qed

lemma utf8_bytes_3:
  assumes "0x800 \<le> cp" "cp < 0x10000" "cp < 0xD800 \<or> 0xDFFF < cp"
  shows "\<exists>h m l. utf8_bytes cp = [0xE0 + h, 0x80 + m, 0x80 + l] \<and> h < 16 \<and> m < 64 \<and> l < 64
     \<and> (h = 0 \<longrightarrow> 32 \<le> m) \<and> (h = 13 \<longrightarrow> m < 32) \<and> cp = (h * 64 + m) * 64 + l"
proof -
  define q where "q = cp div 64"
  define l where "l = cp mod 64"
  define h where "h = q div 64"
  define m where "m = q mod 64"
  have a: "cp = q * 64 + l" "l < 64" "q = h * 64 + m" "m < 64"
    by (simp_all add: q_def l_def h_def m_def)
  have hq: "h = cp div 4096" by (simp add: h_def q_def div_mult2_eq[symmetric])
  have b: "h < 16" using a assms by linarith
  have c: "h = 0 \<longrightarrow> 32 \<le> m" using a assms by auto
  have d: "h = 13 \<longrightarrow> m < 32" using a assms by auto
  have "utf8_bytes cp = [0xE0 + h, 0x80 + m, 0x80 + l]"
    using assms by (simp add: utf8_bytes_def hq[symmetric] m_def q_def l_def)
  then show ?thesis using a b c d by blast
qed

lemma utf8_bytes_4:
  assumes "0x10000 \<le> cp" "cp < 0x110000"
  shows "\<exists>h k m l. utf8_bytes cp = [0xF0 + h, 0x80 + k, 0x80 + m, 0x80 + l] \<and> h \<le> 4 \<and> k < 64
     \<and> m < 64 \<and> l < 64
     \<and> (h = 0 \<longrightarrow> 16 \<le> k) \<and> (h = 4 \<longrightarrow> k < 16) \<and> cp = ((h * 64 + k) * 64 + m) * 64 + l"
proof -
  define q where "q = cp div 64"
  define l where "l = cp mod 64"
  define p where "p = q div 64"
  define m where "m = q mod 64"
  define h where "h = p div 64"
  define k where "k = p mod 64"
  have a: "cp = q * 64 + l" "l < 64" "q = p * 64 + m" "m < 64" "p = h * 64 + k" "k < 64"
    by (simp_all add: q_def l_def h_def m_def p_def k_def)
  have pq: "p = cp div 4096" by (simp add: p_def q_def div_mult2_eq[symmetric])
  have hq: "h = cp div 262144" by (simp add: h_def pq div_mult2_eq[symmetric])
  have b: "h \<le> 4" using a assms by linarith
  have c: "h = 0 \<longrightarrow> 16 \<le> k" using a assms by auto
  have d: "h = 4 \<longrightarrow> k < 16" using a assms by auto
  have "utf8_bytes cp = [0xF0 + h, 0x80 + k, 0x80 + m, 0x80 + l]"
    using assms by (simp add: utf8_bytes_def hq[symmetric] k_def pq[symmetric] m_def q_def l_def)
  then show ?thesis using a b c d by blast
qed

lemma utf8_dec_bytes:
  assumes "scalar_value cp"
  shows "utf8_dec 0 0 0x80 0xBF (utf8_bytes cp @ rest) = cp # utf8_dec 0 0 0x80 0xBF rest"
proof -
  have sv: "cp < 0x110000" "cp < 0xD800 \<or> 0xDFFF < cp"
    using assms unfolding scalar_value_def by linarith+
  consider "cp < 0x80" | "0x80 \<le> cp \<and> cp < 0x800" | "0x800 \<le> cp \<and> cp < 0x10000"
    | "0x10000 \<le> cp \<and> cp < 0x110000"
    using sv by linarith
  then show ?thesis
  proof cases
    case 1
    then show ?thesis by (simp add: utf8_bytes_def)
  next
    case 2
    then obtain h l where "utf8_bytes cp = [0xC0 + h, 0x80 + l]" "2 \<le> h" "h < 32" "l < 64" "cp = h * 64 + l"
      using utf8_bytes_2 by blast
    then show ?thesis using dec2[of h l rest] by simp
  next
    case 3
    then obtain h m l where "utf8_bytes cp = [0xE0 + h, 0x80 + m, 0x80 + l]" "h < 16" "m < 64" "l < 64"
      "h = 0 \<longrightarrow> 32 \<le> m" "h = 13 \<longrightarrow> m < 32" "cp = (h * 64 + m) * 64 + l"
      using utf8_bytes_3[of cp] sv by blast
    then show ?thesis using dec3[of h m l rest] by simp
  next
    case 4
    then obtain h k m l where "utf8_bytes cp = [0xF0 + h, 0x80 + k, 0x80 + m, 0x80 + l]" "h \<le> 4" "k < 64"
      "m < 64" "l < 64" "h = 0 \<longrightarrow> 16 \<le> k" "h = 4 \<longrightarrow> k < 16" "cp = ((h * 64 + k) * 64 + m) * 64 + l"
      using utf8_bytes_4[of cp] by blast
    then show ?thesis using dec4[of h k m l rest] by simp
  qed
qed

lemma pair_scalar:
  "is_high_surrogate u \<Longrightarrow> is_low_surrogate l \<Longrightarrow>
   scalar_value (0x10000 + (u - 0xD800) * 0x400 + (l - 0xDC00))"
  unfolding scalar_value_def is_high_surrogate_def is_low_surrogate_def by linarith

lemma unit_scalar:
  "u < 65536 \<Longrightarrow> \<not> is_high_surrogate u \<Longrightarrow> \<not> is_low_surrogate u \<Longrightarrow> scalar_value u"
  unfolding scalar_value_def is_high_surrogate_def is_low_surrogate_def by linarith

lemma fffd_scalar: "scalar_value 0xFFFD"
  by (simp add: scalar_value_def)

lemma to_scalars_scalar:
  "\<forall>u\<in>set us. u < 65536 \<Longrightarrow> \<forall>cp\<in>set (to_scalars us). scalar_value cp"
proof (induction us rule: to_scalars.induct)
  case 1
  then show ?case by simp
next
  case (2 u)
  then show ?case by (simp add: fffd_scalar unit_scalar)
next
  case (3 u l rest)
  then show ?case by (simp add: fffd_scalar unit_scalar pair_scalar)
qed

lemma utf8_bytes_lt_256:
  assumes "cp < 0x110000"
  shows "\<forall>b\<in>set (utf8_bytes cp). b < 256"
proof -
  have m: "cp mod 64 < 64" "cp div 64 mod 64 < 64" "cp div 4096 mod 64 < 64" by simp_all
  consider "cp < 0x80" | "0x80 \<le> cp \<and> cp < 0x800" | "0x800 \<le> cp \<and> cp < 0x10000"
    | "0x10000 \<le> cp \<and> cp < 0x110000"
    using assms by linarith
  then show ?thesis
  proof cases
    case 1
    then show ?thesis by (simp add: utf8_bytes_def)
  next
    case 2
    then have "cp div 64 < 32" by auto
    with 2 m show ?thesis by (simp add: utf8_bytes_def)
  next
    case 3
    then have "cp div 4096 < 16" by auto
    with 3 m show ?thesis unfolding utf8_bytes_def by (simp del: mod_less_divisor)
  next
    case 4
    then have "cp div 262144 < 8" by auto
    with 4 m show ?thesis unfolding utf8_bytes_def by (simp del: mod_less_divisor)
  qed
qed

lemma utf8_decode_concat:
  "\<forall>cp\<in>set cps. scalar_value cp \<Longrightarrow>
   utf8_decode (concat (map utf8_bytes cps) @ rest) = cps @ utf8_decode rest"
  by (induction cps) (simp_all add: utf8_decode_def utf8_dec_bytes)

lemma utf16_units_pair:
  assumes "is_high_surrogate u" "is_low_surrogate l"
  shows "utf16_units (0x10000 + (u - 0xD800) * 0x400 + (l - 0xDC00)) = [u, l]"
proof -
  define a where "a = u - 0xD800"
  define b where "b = l - 0xDC00"
  have u: "u = 0xD800 + a" and l: "l = 0xDC00 + b" and b: "b < 0x400"
    using assms by (auto simp: a_def b_def is_high_surrogate_def is_low_surrogate_def)
  have "(a * 0x400 + b) div 0x400 = a" "(a * 0x400 + b) mod 0x400 = b"
    using b by simp_all
  then show ?thesis
    by (simp add: utf16_units_def a_def[symmetric] b_def[symmetric] u l)
qed

lemma utf16_of_scalars:
  "\<forall>u\<in>set us. u < 65536 \<Longrightarrow> well_formed_utf16 us \<Longrightarrow>
   concat (map utf16_units (to_scalars us)) = us"
proof (induction us rule: to_scalars.induct)
  case 1
  then show ?case by simp
next
  case (2 u)
  then show ?case by (simp add: utf16_units_def)
next
  case (3 u l rest)
  show ?case
  proof (cases "is_high_surrogate u")
    case True
    with 3 have lo: "is_low_surrogate l" and wf: "well_formed_utf16 rest" by auto
    show ?thesis using 3 True lo wf by (simp add: utf16_units_pair)
  next
    case False
    with 3 show ?thesis by (simp add: utf16_units_def)
  qed
qed

lemma unat_16_lt: "\<forall>u\<in>set (map unat (s::jsstring)). u < 65536"
proof
  fix u assume "u \<in> set (map unat s)"
  then obtain w :: "16 word" where "u = unat w" by auto
  then show "u < 65536" using unsigned_less[of w, where 'a=nat] by simp
qed

lemma encoded_bytes_lt_256:
  "\<forall>b\<in>set (concat (map utf8_bytes (to_scalars (map unat (s::jsstring))))). b < 256"
proof -
  have "\<forall>cp\<in>set (to_scalars (map unat s)). cp < 0x110000"
    using to_scalars_scalar[OF unat_16_lt[of s]] by (auto simp: scalar_value_def)
  then show ?thesis using utf8_bytes_lt_256 by auto
qed

lemma unat_of_nat_byte: "b < 256 \<Longrightarrow> unat (of_nat b :: byte) = b"
  by (simp add: unat_of_nat)

lemma unat_of_nat_bytes:
  "\<forall>b\<in>set bs. b < 256 \<Longrightarrow> map unat (map of_nat bs :: byte list) = bs"
  by (induction bs) (simp_all add: unat_of_nat_byte)

lemma of_nat_unat_units: "map (of_nat \<circ> unat) (s::jsstring) = s"
  by (induction s) simp_all

lemma utf8_decode_replicate_0: "utf8_decode (replicate j 0) = replicate j 0"
  by (induction j) (simp_all add: utf8_decode_def)

lemma to_scalars_hd:
  "well_formed_utf16 us \<Longrightarrow> (case to_scalars us of [] \<Rightarrow> True | c # _ \<Rightarrow> c = 0xFEFF \<longrightarrow> take 1 us = [0xFEFF])"
  by (cases us rule: to_scalars.cases) (auto simp: is_high_surrogate_def is_low_surrogate_def)

lemma strip_bom_id:
  assumes "well_formed_utf16 us" "take 1 us \<noteq> [0xFEFF]"
  shows "strip_bom (to_scalars us @ replicate j 0) = to_scalars us @ replicate j 0"
proof (cases "to_scalars us")
  case Nil
  then show ?thesis by (cases j) (simp_all add: strip_bom_def)
next
  case (Cons c cs)
  then have "c \<noteq> 0xFEFF" using to_scalars_hd[OF assms(1)] assms(2) by auto
  with Cons show ?thesis by (simp add: strip_bom_def)
qed

lemma decode_encode_pad:
  assumes wf: "well_formed_utf16 (map unat fid)" and nb: "\<not> startsWith fid [0xFEFF]"
  shows "TextDecoder_decode (TextEncoder_encode fid @ replicate j 0) = fid @ replicate j 0"
proof -
  let ?us = "map unat fid"
  let ?bs = "concat (map utf8_bytes (to_scalars ?us))"
  have nb': "take 1 ?us \<noteq> [0xFEFF]"
  proof
    assume a: "take 1 ?us = [0xFEFF]"
    then obtain w ws where fid: "fid = w # ws" by (cases fid) auto
    with a have "unat w = 0xFEFF" by simp
    then have "w = 0xFEFF" by (simp add: word_unat_eq_iff)
    with fid nb show False by (simp add: startsWith_def)
  qed
  have "map unat (TextEncoder_encode fid @ replicate j 0) = ?bs @ replicate j 0"
    using unat_of_nat_bytes[OF encoded_bytes_lt_256[of fid]]
    by (simp add: TextEncoder_encode_def del: map_map)
  moreover have "utf8_decode (?bs @ replicate j 0) = to_scalars ?us @ replicate j 0"
    using utf8_decode_concat[OF to_scalars_scalar[OF unat_16_lt[of fid]]]
    by (simp add: utf8_decode_replicate_0)
  moreover have "concat (map utf16_units (to_scalars ?us @ replicate j 0)) = ?us @ replicate j 0"
  proof -
    have "concat (map utf16_units (replicate j 0)) = replicate j 0"
      by (induction j) (simp_all add: utf16_units_def)
    then show ?thesis using utf16_of_scalars[OF unat_16_lt[of fid] wf] by simp
  qed
  ultimately show ?thesis
    by (simp add: TextDecoder_decode_def strip_bom_id[OF wf nb'] of_nat_unat_units)
qed

lemma strip_trailing_nuls_pad:
  "strip_trailing_nuls (s @ replicate j 0) = strip_trailing_nuls s"
proof -
  have "dropWhile (\<lambda>c. c = 0) (replicate j (0::16 word) @ xs) = dropWhile (\<lambda>c. c = 0) xs" for xs
    by (induction j) simp_all
  then show ?thesis by (simp add: strip_trailing_nuls_def)
qed

lemma length_le_encoded: "length us \<le> length (concat (map utf8_bytes (to_scalars us)))"
proof (induction us rule: to_scalars.induct)
  case 1
  then show ?case by simp
next
  case (2 u)
  then show ?case by (simp add: utf8_bytes_def)
next
  case (3 u l rest)
  have a: "1 \<le> length (utf8_bytes c)" for c by (simp add: utf8_bytes_def)
  have b: "is_high_surrogate u \<Longrightarrow> is_low_surrogate l \<Longrightarrow>
     length (utf8_bytes (0x10000 + (u - 0xD800) * 0x400 + (l - 0xDC00))) = 4"
    by (simp add: utf8_bytes_def)
  show ?case
  proof (cases "is_high_surrogate u \<and> is_low_surrogate l")
    case True
    then show ?thesis using 3 b by simp
  next
    case False
    have ih: "Suc (length rest) \<le> length (concat (map utf8_bytes (to_scalars (l # rest))))"
      using 3 False by (cases "is_high_surrogate u") auto
    show ?thesis using False ih a[of u] a[of "0xFFFD"] by auto
  qed
qed

lemma length_le_TextEncoder: "length s \<le> length (TextEncoder_encode s)"
  using length_le_encoded[of "map unat s"] by (simp add: TextEncoder_encode_def)

lemma read_be32_be32: "v < 2 ^ 32 \<Longrightarrow> read_be32 (be32 v @ rest) = v"
proof -
  assume v: "v < 2 ^ 32"
  have a: "v div 2 ^ 24 < 256" using v by (simp add: less_mult_imp_div_less)
  have b: "v div 2 ^ 24 * 2 ^ 24 + v div 2 ^ 16 mod 256 * 2 ^ 16 + v div 2 ^ 8 mod 256 * 2 ^ 8
            + v mod 256 = v"
  proof -
    define q1 where "q1 = v div 256"
    define q2 where "q2 = q1 div 256"
    define q3 where "q3 = q2 div 256"
    have e: "v = q1 * 256 + v mod 256" "q1 = q2 * 256 + q1 mod 256" "q2 = q3 * 256 + q2 mod 256"
      by (simp_all add: q1_def q2_def q3_def)
    have "v div 2 ^ 8 = q1" by (simp add: q1_def)
    moreover have "v div 2 ^ 16 = q2" by (simp add: q2_def q1_def div_mult2_eq[symmetric])
    moreover have "v div 2 ^ 24 = q3" by (simp add: q3_def q2_def q1_def div_mult2_eq[symmetric])
    ultimately show ?thesis using e by simp
  qed
  show ?thesis using v a b
    by (simp add: read_be32_def be32_def Let_def unat_of_nat_byte)
qed

lemma parsePacketHeader_eq: "(\<forall>e. parsePacketHeader data \<noteq> Inl e) \<and>
   parsePacketHeader data =
     (if length data < 44 \<or> read_be32 data \<noteq> 0x4244544C then Inr None
      else Inr (Some (strip_trailing_nuls (TextDecoder_decode (slice_js data 4 40)),
                      read_be32 (drop 40 data))))"
  by (simp add: parsePacketHeader_def HEADER_SIZE_def PACKET_MAGIC_def bindE_def new_DataView_def
         getUint32_def read_be32_def Let_def)

lemma padded_length:
  "length (TextEncoder_encode (padEnd fid 36 0)) = length (TextEncoder_encode fid) + (36 - length fid)"
  by (simp add: padEnd_def encode_pad)

lemma frame_parts:
  assumes "length A = 4" "length B = 36" "length C = 4"
  shows "length (A @ B @ C) = 44"
    and "take 36 (drop 4 (A @ B @ R)) = B"
    and "drop 40 (A @ B @ R) = R"
    and "drop 44 (A @ B @ C @ P) = P"
    and "\<not> length (A @ B @ C @ P) < 44"
  using assms by simp_all

lemma length_field: "length (take 36 (fb @ replicate 36 (0::byte))) = 36"
  by simp

lemma makePacket_eq:
  "makePacket fid ci payload =
     (let fb = TextEncoder_encode (padEnd fid 36 0)
      in if 40 < length fb then Inl RangeError
         else Inr (be32 PACKET_MAGIC @ take 36 (fb @ replicate 36 0) @ be32 ci @ payload))"
proof (cases "40 < length (TextEncoder_encode (padEnd fid 36 0))")
  case True
  then show ?thesis by (simp add: makePacket_def createPacketHeader_eq Let_def bindE_def)
next
  case False
  define h where "h = be32 PACKET_MAGIC @ take 36 (TextEncoder_encode (padEnd fid 36 0) @ replicate 36 0) @ be32 ci"
  have hl: "length h = 44"
    unfolding h_def by (rule frame_parts(1)) (simp_all only: length_be32 length_field)
  have c: "createPacketHeader fid ci = Inr h"
    using False by (simp only: createPacketHeader_eq Let_def h_def if_False)
  have "makePacket fid ci payload = Inr (h @ payload)"
    by (simp add: makePacket_def c bindE_def typed_array_set_def HEADER_SIZE_def hl)
  then show ?thesis using False by (simp only: Let_def if_False h_def append_assoc)
qed

lemma enc_cjk: "TextEncoder_encode [0x4E2D, 0x6587, 0x540D] = [0xE4, 0xB8, 0xAD, 0xE6, 0x96, 0x87, 0xE5, 0x90, 0x8D]"
  by (simp add: TextEncoder_encode_def is_high_surrogate_def is_low_surrogate_def utf8_bytes_def)

lemma encode_ascii:
  assumes a: "\<forall>u\<in>set s. u < 0x80"
  shows "TextEncoder_encode s = map ucast s"
proof -
  have t: "\<forall>u\<in>set us. u < 0x80 \<Longrightarrow> to_scalars us = us" for us :: "nat list"
    by (induction us rule: to_scalars.induct) (auto simp: is_high_surrogate_def is_low_surrogate_def)
  have c: "\<forall>u\<in>set us. u < 0x80 \<Longrightarrow> concat (map utf8_bytes us) = us" for us :: "nat list"
    by (induction us) (simp_all add: utf8_bytes_def)
  have n: "\<forall>u\<in>set (map unat s). u < 0x80"
    using a by (auto simp: word_less_nat_alt)
  have "concat (map utf8_bytes (to_scalars (map unat s))) = map unat s"
    by (simp only: t[OF n] c[OF n])
  then have "TextEncoder_encode s = map of_nat (map unat s)"
    by (simp only: TextEncoder_encode_def)
  then show ?thesis by simp
qed

subsection \<open>Frame round trip\<close>

text \<open>
  Claim C1, as the code has it. \<open>createPacketHeader\<close> pads the fileId to 36 UTF-16 code
  units and only then encodes it, so the bytes written at offset 4 are the UTF-8 encoding of
  the fileId followed by one NUL per missing code unit. For a fileId without unpaired
  surrogates and without a leading U+FEFF, whose UTF-8 encoding has at most 36 bytes and at
  most 4 bytes more than the fileId has code units, and for a chunkIndex below \<open>2^32\<close>,
  the receiving side's binary branch of \<open>handleMessage\<close> turns the packet built by
  \<open>sendFile\<close> into a chunk message with the fileId (trailing NULs stripped), the
  chunkIndex and the payload.
\<close>

theorem frame_roundtrip:
  assumes wf: "well_formed_utf16 (map unat fid)"
      and nb: "\<not> startsWith fid [0xFEFF]"
      and le36: "length (TextEncoder_encode fid) \<le> 36"
      and le4: "length (TextEncoder_encode fid) \<le> length fid + 4"
      and ci: "ci < 2 ^ 32"
  shows "bindE (makePacket fid ci payload) handleBinary
           = Inr (Chunk (strip_trailing_nuls fid) ci payload)"
proof -
  let ?e = "TextEncoder_encode fid"
  let ?fb = "TextEncoder_encode (padEnd fid 36 0)"
  define B where "B = ?e @ replicate (36 - length ?e) 0"
  have len16: "length fid \<le> length ?e" by (rule length_le_TextEncoder)
  have fb: "?fb = ?e @ replicate (36 - length fid) 0" by (simp add: padEnd_def encode_pad)
  have fit: "\<not> 40 < length ?fb" using le4 len16 le36 by (simp add: fb)
  have field: "take 36 (?fb @ replicate 36 0) = B"
  proof -
    have "take 36 (?e @ replicate (36 - length fid) 0 @ replicate 36 0)
            = ?e @ take (36 - length ?e) (replicate (36 - length fid) 0 @ replicate 36 0)"
      using le36 by simp
    also have "take (36 - length ?e) (replicate (36 - length fid) 0 @ replicate 36 (0::byte))
            = replicate (36 - length ?e) 0"
      using len16 by (simp add: min_def)
    finally show ?thesis by (simp only: fb B_def append_assoc)
  qed
  have lB: "length B = 36" using le36 by (simp add: B_def)
  have lA: "length (be32 PACKET_MAGIC) = 4" and lC: "length (be32 ci) = 4"
    by (rule length_be32)+
  define frame where "frame = be32 PACKET_MAGIC @ B @ be32 ci @ payload"
  have mk: "makePacket fid ci payload = Inr frame"
    using fit by (simp only: makePacket_eq Let_def field frame_def if_False)
  have l44: "\<not> length frame < 44" unfolding frame_def by (rule frame_parts(5)[OF lA lB lC])
  have magic: "read_be32 frame = 0x4244544C"
    unfolding frame_def PACKET_MAGIC_def by (rule read_be32_be32) simp
  have "slice_js frame 4 40 = take 36 (drop 4 frame)" by (simp add: slice_js_def)
  also have "\<dots> = B" unfolding frame_def by (rule frame_parts(2)[OF lA lB lC])
  finally have sl: "slice_js frame 4 40 = B" .
  have d40: "drop 40 frame = be32 ci @ payload"
    unfolding frame_def by (rule frame_parts(3)[OF lA lB lC])
  have d44: "drop 44 frame = payload"
    unfolding frame_def by (rule frame_parts(4)[OF lA lB lC])
  have dec: "strip_trailing_nuls (TextDecoder_decode B) = strip_trailing_nuls fid"
    unfolding B_def by (simp only: decode_encode_pad[OF wf nb] strip_trailing_nuls_pad)
  have "parsePacketHeader frame =
     (if length frame < 44 \<or> read_be32 frame \<noteq> 0x4244544C then Inr None
      else Inr (Some (strip_trailing_nuls (TextDecoder_decode (slice_js frame 4 40)),
                      read_be32 (drop 40 frame))))"
    using parsePacketHeader_eq[of frame] by blast
  then have "parsePacketHeader frame = Inr (Some (strip_trailing_nuls fid, ci))"
    using l44 by (simp only: magic sl d40 dec read_be32_be32[OF ci]) simp
  then show ?thesis
    by (simp add: mk bindE_def handleBinary_def HEADER_SIZE_def d44)
qed

theorem frame_roundtrip_witness:
  "bindE (makePacket (js ''f1x9'') 7 [1, 2, 3]) handleBinary = Inr (Chunk (js ''f1x9'') 7 [1, 2, 3])"
proof -
  have j: "js ''f1x9'' = [0x66, 0x31, 0x78, 0x39]" by (simp add: js_def)
  have en: "TextEncoder_encode (js ''f1x9'') = [0x66, 0x31, 0x78, 0x39]"
    unfolding j by (subst encode_ascii) simp_all
  have a: "well_formed_utf16 (map unat (js ''f1x9''))"
    by (simp add: j is_high_surrogate_def is_low_surrogate_def)
  have b: "\<not> startsWith (js ''f1x9'') [0xFEFF]" by (simp add: j startsWith_def)
  have c: "length (TextEncoder_encode (js ''f1x9'')) \<le> 36" by (simp add: en)
  have d: "length (TextEncoder_encode (js ''f1x9'')) \<le> length (js ''f1x9'') + 4"
    unfolding en by (simp add: j)
  have e: "(7::nat) < 2 ^ 32" by simp
  have f: "strip_trailing_nuls (js ''f1x9'') = js ''f1x9''" by (simp add: j strip_trailing_nuls_def)
  from frame_roundtrip[OF a b c d e, of "[1, 2, 3]"] f show ?thesis by simp
qed

text \<open>
  The claim as stated fails for a fileId of three CJK characters: its UTF-8 encoding has
  9 bytes, the padded field 42, and the typed-array write throws.
\<close>

theorem frame_roundtrip_counterexample:
  "length (TextEncoder_encode [0x4E2D, 0x6587, 0x540D]) = 9 \<and>
   makePacket [0x4E2D, 0x6587, 0x540D] 0 [] = Inl RangeError"
  by (simp add: makePacket_eq Let_def padded_length enc_cjk)

subsection \<open>Header parsing never throws\<close>

text \<open>
  Claim C7. For every byte buffer \<open>parsePacketHeader\<close> returns without throwing; the
  result is null exactly when the buffer has fewer than 44 bytes or its first four bytes,
  read big-endian, are not \<open>0x4244544C\<close>, and otherwise it is a header with the decoded
  fileId and the chunkIndex read big-endian at offset 40.
\<close>

theorem parsePacketHeader_never_throws:
  "(\<forall>e. parsePacketHeader data \<noteq> Inl e) \<and>
   (parsePacketHeader data = Inr None)
      = (length data < 44 \<or> read_be32 data \<noteq> 0x4244544C) \<and>
   parsePacketHeader data =
     (if length data < 44 \<or> read_be32 data \<noteq> 0x4244544C then Inr None
      else Inr (Some (strip_trailing_nuls (TextDecoder_decode (slice_js data 4 40)),
                      read_be32 (drop 40 data))))"
  using parsePacketHeader_eq[of data] by auto

subsection \<open>Oversized fileIds\<close>

text \<open>
  Claim C8, as the code has it. Building a packet fails exactly when the UTF-8 encoding of
  the fileId, plus one NUL for each code unit the fileId is short of 36, exceeds 40 bytes,
  and the failure is the \<open>RangeError\<close> of the typed-array write; in particular it fails
  for every fileId whose UTF-8 encoding exceeds 40 bytes. In every other case a packet is
  produced.
\<close>

theorem encode_fails_iff:
  "(makePacket fid ci payload = Inl RangeError)
      = (40 < length (TextEncoder_encode fid) + (36 - length fid))
   \<and> (\<exists>frame. makePacket fid ci payload = Inr frame)
      = (length (TextEncoder_encode fid) + (36 - length fid) \<le> 40)
   \<and> (40 < length (TextEncoder_encode fid) \<longrightarrow> makePacket fid ci payload = Inl RangeError)"
  by (auto simp: makePacket_eq Let_def padded_length)

theorem encode_fails_iff_witness:
  "40 < length (TextEncoder_encode (replicate 41 0x61)) \<and>
   makePacket (replicate 41 0x61) 0 [] = Inl RangeError"
proof -
  have h: "40 < length (TextEncoder_encode (replicate 41 0x61))"
    using length_le_TextEncoder[of "replicate 41 0x61"] by simp
  from encode_fails_iff[of "replicate 41 0x61" 0 "[]"] h show ?thesis by blast
qed

text \<open>
  A fileId of 37 ASCII characters has a 37-byte encoding, and a packet is produced for it:
  the 37th byte is overwritten by the chunkIndex.
\<close>

theorem encode_oversized_counterexample:
  "36 < length (TextEncoder_encode (replicate 37 0x61)) \<and>
   makePacket (replicate 37 0x61) 5 [1, 2] =
     Inr ([0x42, 0x44, 0x54, 0x4C] @ replicate 36 0x61 @ [0, 0, 0, 5] @ [1, 2])"
proof -
  have e: "TextEncoder_encode (replicate 37 0x61) = replicate 37 0x61"
    by (subst encode_ascii) simp_all
  have p: "padEnd (replicate 37 0x61) 36 0 = replicate 37 0x61" by (simp add: padEnd_def)
  have m: "be32 PACKET_MAGIC = [0x42, 0x44, 0x54, 0x4C]" by (simp add: be32_def PACKET_MAGIC_def)
  have c: "be32 5 = [0, 0, 0, 5]" by (simp add: be32_def)
  show ?thesis by (simp add: makePacket_eq Let_def p e m c)
qed


section \<open>Properties of the SDP compressor\<close>

subsection \<open>Auxiliary facts\<close>

lemma startsWith_append: "startsWith (p @ s) p"
  by (simp add: startsWith_def)

lemma js_X1: "js ''X1:'' = [0x58, 0x31, 0x3A]" by (simp add: js_def)

lemma js_XTRANS: "js ''XTRANS:'' = [0x58, 0x54, 0x52, 0x41, 0x4E, 0x53, 0x3A]" by (simp add: js_def)

lemma js_brace: "js ''{'' = [0x7B]" by (simp add: js_def)

lemma filter_candidates_other:
  "filter (\<lambda>l. \<not> is_candidate l) (filter_candidates n ls) = filter (\<lambda>l. \<not> is_candidate l) ls"
  by (induction n ls rule: filter_candidates.induct) simp_all

lemma filter_candidates_host:
  "filter (\<lambda>l. is_candidate l \<and> is_host l) (filter_candidates n ls)
     = take (maxHostCandidates - n) (filter (\<lambda>l. is_candidate l \<and> is_host l) ls)"
proof (induction n ls rule: filter_candidates.induct)
  case (1 hostCount)
  then show ?case by simp
next
  case (2 hostCount line rest)
  show ?case
  proof (cases "is_candidate line \<and> is_host line")
    case True
    show ?thesis
    proof (cases "hostCount + 1 \<le> maxHostCandidates")
      case le: True
      then have "maxHostCandidates - hostCount = Suc (maxHostCandidates - (hostCount + 1))" by simp
      with True le 2 show ?thesis by simp
    next
      case gt: False
      then have "maxHostCandidates - hostCount = 0" "maxHostCandidates - (hostCount + 1) = 0" by simp_all
      with True gt 2 show ?thesis by simp
    qed
  next
    case False
    with 2 show ?thesis by auto
  qed
qed

lemma filter_candidates_reflexive_relay:
  "filter (\<lambda>l. is_candidate l \<and> \<not> is_host l \<and> (is_srflx l \<or> is_relay l)) (filter_candidates n ls)
     = filter (\<lambda>l. is_candidate l \<and> \<not> is_host l \<and> (is_srflx l \<or> is_relay l)) ls"
  by (induction n ls rule: filter_candidates.induct) auto

lemma filter_candidates_dropped:
  "filter (\<lambda>l. is_candidate l \<and> \<not> is_host l \<and> \<not> is_srflx l \<and> \<not> is_relay l) (filter_candidates n ls) = []"
  by (induction n ls rule: filter_candidates.induct) auto

lemma filter_candidates_subseq: "subseq (filter_candidates n ls) ls"
  by (induction n ls rule: filter_candidates.induct) auto

lemma decompress_compress:
  "decompress lzd atob (compress lzc x) =
     (case lzd (lzc (optimizeSDP x)) of None \<Rightarrow> None | Some d \<Rightarrow> if d = [] then None else Some d)"
  by (simp add: decompress_def decompress_try_def compress_def startsWith_append
      split: option.splits)

lemma js_v0: "js ''v=0'' = [0x76, 0x3D, 0x30]" by (simp add: js_def)

lemma js_cand: "js ''a=candidate:'' = [0x61, 0x3D, 0x63, 0x61, 0x6E, 0x64, 0x69, 0x64, 0x61, 0x74, 0x65, 0x3A]"
  by (simp add: js_def)

lemma compress_empty_pruned:
  "optimizeSDP x = [] \<Longrightarrow> lzd (lzc []) = Some [] \<Longrightarrow> decompress lzd atob (compress lzc x) = None"
  by (simp add: decompress_compress)

lemma split_nl_not_Nil: "split_nl s \<noteq> []"
  by (induction s) (auto split: list.splits)

lemma split_nl_first:
  assumes "c \<noteq> 0x0A"
  shows "\<exists>l ls. split_nl (c # cs) = (c # l) # ls"
  using assms split_nl_not_Nil[of cs] by (cases "split_nl cs") auto

lemma join_nl_first: "join_nl ((c # l) # ls) \<noteq> []"
  by (cases ls) simp_all

lemma optimizeSDP_first:
  assumes "c \<noteq> 0x0A" and "c \<noteq> 0x61"
  shows "optimizeSDP (c # cs) \<noteq> []"
proof -
  obtain l ls where s: "split_nl (c # cs) = (c # l) # ls"
    using split_nl_first[OF assms(1)] by blast
  have "\<not> is_candidate (c # l)"
    using assms(2) unfolding is_candidate_def startsWith_def js_cand by simp
  then have "filter_candidates 0 ((c # l) # ls) = (c # l) # filter_candidates 0 ls" by simp
  then show ?thesis unfolding optimizeSDP_def s by (simp only: join_nl_first not_False_eq_True)
qed

lemma session_description_pruned:
  assumes "startsWith x (js ''v=0'') \<or> startsWith x (js ''{'')"
  shows "optimizeSDP x \<noteq> []"
proof -
  from assms obtain c cs where x: "x = c # cs" and c: "c = 0x76 \<or> c = 0x7B"
    unfolding startsWith_def js_v0 js_brace by (cases x) auto
  have "c \<noteq> 0x0A" and "c \<noteq> 0x61" using c by auto
  then show ?thesis unfolding x by (rule optimizeSDP_first)
qed

lemma dropWhile_snoc_stop: "\<not> P c \<Longrightarrow> dropWhile P (xs @ [c]) = dropWhile P xs @ [c]"
  by (induction xs) simp_all

lemma trim_Cons:
  assumes "\<not> js_whitespace c"
  shows "\<exists>t. trim (c # cs) = c # t"
proof -
  have "trim (c # cs) = rev (dropWhile js_whitespace (rev cs @ [c]))"
    using assms by (simp add: trim_def)
  also have "\<dots> = c # rev (dropWhile js_whitespace (rev cs))"
    using assms by (simp add: dropWhile_snoc_stop)
  finally show ?thesis by blast
qed

lemma X_not_whitespace: "\<not> js_whitespace 0x58"
  by (simp add: js_whitespace_def)

lemma X_prefix_not_brace:
  assumes "take 1 code = [0x58]"
  shows "\<not> startsWith (trim code) (js ''{'')"
proof -
  from assms obtain cs where c: "code = 0x58 # cs" by (cases code) auto
  obtain t where "trim code = 0x58 # t" using trim_Cons[OF X_not_whitespace] c by blast
  then show ?thesis by (simp add: startsWith_def js_brace)
qed

lemma X1_take1: "startsWith code (js ''X1:'') \<Longrightarrow> take 1 code = [0x58]"
  by (cases code) (auto simp: startsWith_def js_X1)

lemma XTRANS_take1: "startsWith code (js ''XTRANS:'') \<Longrightarrow> take 1 code = [0x58]"
  by (cases code) (auto simp: startsWith_def js_XTRANS)

lemma XTRANS_not_X1:
  assumes "startsWith code (js ''XTRANS:'')"
  shows "\<not> startsWith code (js ''X1:'')"
proof -
  have l: "length (js ''XTRANS:'') = 7" by (simp add: js_def)
  have "take 7 code = js ''XTRANS:''" using assms unfolding startsWith_def l .
  then have "take 7 code = [0x58, 0x54, 0x52, 0x41, 0x4E, 0x53, 0x3A]"
    by (simp only: js_XTRANS)
  then have "take 3 (take 7 code) = [0x58, 0x54, 0x52]" by simp
  then have t: "take 3 code = [0x58, 0x54, 0x52]" by simp
  have l3: "length (js ''X1:'') = 3" by (simp add: js_def)
  show ?thesis unfolding startsWith_def l3 t by (simp add: js_X1)
qed

lemma length_VERSION_PREFIX: "length VERSION_PREFIX = 3"
  by (simp add: VERSION_PREFIX_def js_def)

lemma length_LEGACY_PREFIX: "length LEGACY_PREFIX = 7"
  by (simp add: LEGACY_PREFIX_def js_def)

subsection \<open>Compression round trip\<close>

text \<open>
  Claim C2. A session description is SDP text, whose first line is \<open>v=0\<close>, or the JSON
  text of a description object, which \<open>createOffer\<close> and \<open>createAnswer\<close> return from
  \<open>JSON.stringify\<close> and which starts with \<open>{\<close>. Let the pruned form of \<open>x\<close> be
  \<open>optimizeSDP x\<close>: the lines of \<open>x\<close> in their order, without the candidate lines that
  contain \<open>typ host\<close> after the first two such lines and without the candidate lines that
  contain none of \<open>typ host\<close>, \<open>typ srflx\<close>, \<open>typ relay\<close>; a candidate line without
  \<open>typ host\<close> that contains \<open>typ srflx\<close> or \<open>typ relay\<close> is kept, and so is every line
  that is not a candidate line. Whenever the text decompressor returns the pruned form
  from its compressed form, \<open>decompress (compress x)\<close> is not null and is the pruned form
  of \<open>x\<close>.
\<close>

theorem compress_roundtrip:
  assumes "startsWith x (js ''v=0'') \<or> startsWith x (js ''{'')"
      and "lz_decompress (lz_compress (optimizeSDP x)) = Some (optimizeSDP x)"
  shows "decompress lz_decompress atob (compress lz_compress x) = Some (optimizeSDP x)
    \<and> optimizeSDP x = join_nl (filter_candidates 0 (split_nl x))
    \<and> subseq (filter_candidates 0 (split_nl x)) (split_nl x)
    \<and> filter (\<lambda>l. \<not> is_candidate l) (filter_candidates 0 (split_nl x))
         = filter (\<lambda>l. \<not> is_candidate l) (split_nl x)
    \<and> filter (\<lambda>l. is_candidate l \<and> is_host l) (filter_candidates 0 (split_nl x))
         = take 2 (filter (\<lambda>l. is_candidate l \<and> is_host l) (split_nl x))
    \<and> filter (\<lambda>l. is_candidate l \<and> \<not> is_host l \<and> (is_srflx l \<or> is_relay l))
           (filter_candidates 0 (split_nl x))
         = filter (\<lambda>l. is_candidate l \<and> \<not> is_host l \<and> (is_srflx l \<or> is_relay l)) (split_nl x)
    \<and> filter (\<lambda>l. is_candidate l \<and> \<not> is_host l \<and> \<not> is_srflx l \<and> \<not> is_relay l)
           (filter_candidates 0 (split_nl x)) = []"
proof -
  have "optimizeSDP x \<noteq> []" using assms(1) by (rule session_description_pruned)
  then have "decompress lz_decompress atob (compress lz_compress x) = Some (optimizeSDP x)"
    using assms(2) by (simp add: decompress_compress)
  then show ?thesis
    by (simp add: optimizeSDP_def filter_candidates_subseq
        filter_candidates_other filter_candidates_host filter_candidates_reflexive_relay
        filter_candidates_dropped maxHostCandidates_def)
qed

theorem compress_roundtrip_witness:
  "decompress Some (\<lambda>c. Inl PlainError)
     (compress (\<lambda>s. s)
        (js ''v=0'' @ [0x0A] @ js ''a=candidate:1 typ host'' @ [0x0A]
         @ js ''a=candidate:2 typ host'' @ [0x0A] @ js ''a=candidate:3 typ host'' @ [0x0A]
         @ js ''a=candidate:4 typ srflx'' @ [0x0A] @ js ''a=candidate:5 typ prflx'' @ [0x0A]
         @ js ''s=-''))
   = Some (js ''v=0'' @ [0x0A] @ js ''a=candidate:1 typ host'' @ [0x0A]
         @ js ''a=candidate:2 typ host'' @ [0x0A] @ js ''a=candidate:4 typ srflx'' @ [0x0A]
         @ js ''s=-'')"
proof -
  let ?x = "js ''v=0'' @ [0x0A] @ js ''a=candidate:1 typ host'' @ [0x0A]
         @ js ''a=candidate:2 typ host'' @ [0x0A] @ js ''a=candidate:3 typ host'' @ [0x0A]
         @ js ''a=candidate:4 typ srflx'' @ [0x0A] @ js ''a=candidate:5 typ prflx'' @ [0x0A]
         @ js ''s=-''"
  have d: "startsWith ?x (js ''v=0'') \<or> startsWith ?x (js ''{'')"
    by (simp add: startsWith_def js_def)
  have h: "Some ((\<lambda>s. s) (optimizeSDP ?x)) = Some (optimizeSDP ?x)" by simp
  have p: "optimizeSDP ?x = js ''v=0'' @ [0x0A] @ js ''a=candidate:1 typ host'' @ [0x0A]
         @ js ''a=candidate:2 typ host'' @ [0x0A] @ js ''a=candidate:4 typ srflx'' @ [0x0A]
         @ js ''s=-''"
    by (simp add: optimizeSDP_def js_def is_candidate_def is_host_def is_srflx_def is_relay_def
        startsWith_def maxHostCandidates_def)
  from compress_roundtrip[of ?x Some "\<lambda>s. s" "\<lambda>c. Inl PlainError", OF d h]
  show ?thesis unfolding p by blast
qed

text \<open>
  The hypothesis on \<open>x\<close> matters only through \<open>session_description_pruned\<close>: for a string
  whose pruned form is empty, such as the empty string, \<open>decompress\<close> takes the empty
  result of the decompressor for a failure (\<open>compress_empty_pruned\<close>).
\<close>

subsection \<open>The three input forms of decompress\<close>

text \<open>
  Claim C6. A code that starts with \<open>X1:\<close> is given, without the prefix, to the text
  decompressor, and a null or empty result is a failure; a code that starts with
  \<open>XTRANS:\<close> is base64-decoded and UTF-8-decoded, with no pruning or decompression, and
  fails if it is not base64; a code that starts with \<open>{\<close> after trimming is returned
  trimmed; every other code fails. A failure is the null result of \<open>decompress\<close>.
\<close>

theorem decompress_forms:
  "(startsWith code (js ''X1:'') \<longrightarrow>
      decompress lzd atob code =
        (case lzd (drop 3 code) of None \<Rightarrow> None
         | Some d \<Rightarrow> if d = [] then None else Some d))
   \<and> (startsWith code (js ''XTRANS:'') \<longrightarrow>
      decompress lzd atob code =
        (case atob (drop 7 code) of Inl e \<Rightarrow> None
         | Inr bytes \<Rightarrow> Some (TextDecoder_decode bytes)))
   \<and> (startsWith (trim code) (js ''{'') \<longrightarrow> decompress lzd atob code = Some (trim code))
   \<and> (\<not> startsWith code (js ''X1:'') \<and> \<not> startsWith code (js ''XTRANS:'')
        \<and> \<not> startsWith (trim code) (js ''{'') \<longrightarrow> decompress lzd atob code = None)"
proof (intro conjI impI)
  assume "startsWith code (js ''X1:'')"
  then show "decompress lzd atob code =
        (case lzd (drop 3 code) of None \<Rightarrow> None | Some d \<Rightarrow> if d = [] then None else Some d)"
    by (simp add: decompress_def decompress_try_def length_VERSION_PREFIX
        flip: VERSION_PREFIX_def split: option.splits)
next
  assume a: "startsWith code (js ''XTRANS:'')"
  then show "decompress lzd atob code =
        (case atob (drop 7 code) of Inl e \<Rightarrow> None | Inr bytes \<Rightarrow> Some (TextDecoder_decode bytes))"
    using XTRANS_not_X1[OF a]
    by (simp add: decompress_def decompress_try_def decompressLegacy_def Let_def
        length_LEGACY_PREFIX flip: VERSION_PREFIX_def LEGACY_PREFIX_def split: sum.splits)
next
  assume a: "startsWith (trim code) (js ''{'')"
  have "\<not> startsWith code (js ''X1:'')" "\<not> startsWith code (js ''XTRANS:'')"
    using a X_prefix_not_brace X1_take1 XTRANS_take1 by blast+
  with a show "decompress lzd atob code = Some (trim code)"
    by (simp add: decompress_def decompress_try_def VERSION_PREFIX_def LEGACY_PREFIX_def)
next
  assume "\<not> startsWith code (js ''X1:'') \<and> \<not> startsWith code (js ''XTRANS:'')
        \<and> \<not> startsWith (trim code) (js ''{'')"
  then show "decompress lzd atob code = None"
    by (simp add: decompress_def decompress_try_def VERSION_PREFIX_def LEGACY_PREFIX_def)
qed

theorem decompress_forms_witness:
  "decompress (\<lambda>c. None) (\<lambda>c. Inl PlainError) (js ''hello'') = None
   \<and> decompress (\<lambda>c. None) (\<lambda>c. Inl PlainError) (js '' {} '') = Some (js ''{}'')
   \<and> decompress (\<lambda>c. Some c) (\<lambda>c. Inl PlainError) (js ''X1:abc'') = Some (js ''abc'')
   \<and> decompress (\<lambda>c. None) (\<lambda>c. Inr [0x7B, 0x7D]) (js ''XTRANS:e30='') = Some (js ''{}'')"
proof -
  have t1: "trim (js ''hello'') = js ''hello''"
    by (simp add: trim_def js_def js_whitespace_def)
  have h1: "\<not> startsWith (js ''hello'') (js ''X1:'') \<and> \<not> startsWith (js ''hello'') (js ''XTRANS:'')
       \<and> \<not> startsWith (trim (js ''hello'')) (js ''{'')"
    unfolding t1 by (simp add: startsWith_def js_def)
  have t2: "trim (js '' {} '') = js ''{}''"
    by (simp add: trim_def js_def js_whitespace_def)
  have h2: "startsWith (trim (js '' {} '')) (js ''{'')"
    unfolding t2 by (simp add: startsWith_def js_def)
  have h3: "startsWith (js ''X1:abc'') (js ''X1:'')" by (simp add: startsWith_def js_def)
  have d3: "drop 3 (js ''X1:abc'') = js ''abc''" by (simp add: js_def)
  have n3: "js ''abc'' \<noteq> []" by (simp add: js_def)
  have h4: "startsWith (js ''XTRANS:e30='') (js ''XTRANS:'')" by (simp add: startsWith_def js_def)
  have d4: "TextDecoder_decode [0x7B, 0x7D] = js ''{}''"
    by (simp add: TextDecoder_decode_def utf8_decode_def strip_bom_def utf16_units_def js_def)
  from decompress_forms[of "js ''hello''" "\<lambda>c. None" "\<lambda>c. Inl PlainError"] h1
  have "decompress (\<lambda>c. None) (\<lambda>c. Inl PlainError) (js ''hello'') = None" by blast
  moreover from decompress_forms[of "js '' {} ''" "\<lambda>c. None" "\<lambda>c. Inl PlainError"] h2
  have "decompress (\<lambda>c. None) (\<lambda>c. Inl PlainError) (js '' {} '') = Some (js ''{}'')"
    by (simp add: t2)
  moreover from decompress_forms[of "js ''X1:abc''" "\<lambda>c. Some c" "\<lambda>c. Inl PlainError"] h3
  have "decompress (\<lambda>c. Some c) (\<lambda>c. Inl PlainError) (js ''X1:abc'') = Some (js ''abc'')"
    by (simp add: d3 n3)
  moreover from decompress_forms[of "js ''XTRANS:e30=''" "\<lambda>c. None" "\<lambda>c. Inr [0x7B, 0x7D]"] h4
  have "decompress (\<lambda>c. None) (\<lambda>c. Inr [0x7B, 0x7D]) (js ''XTRANS:e30='') = Some (js ''{}'')"
    by (simp add: d4)
  ultimately show ?thesis by blast
qed


section \<open>Properties of sendFile\<close>

lemma loop_continues_iff:
  "(j * CHUNK_SIZE < S) = (j < ceil_div S CHUNK_SIZE)"
proof -
  have "(j < (S + 16384 - 1) div 16384) = (Suc j \<le> (S + 16383) div 16384)" by auto
  also have "\<dots> = (Suc j * 16384 \<le> S + 16383)"
    by (simp add: less_eq_div_iff_mult_less_eq)
  also have "\<dots> = (j * 16384 < S)" by auto
  finally show ?thesis by (simp add: ceil_div_def CHUNK_SIZE_def)
qed

lemma progress_reports_append:
  "progress_reports (a @ b) = progress_reports a @ progress_reports b"
  by (induction a rule: progress_reports.induct) simp_all

lemma send_chunks_reports:
  assumes "send_chunks step prog fid content offset j done = (r, done')"
      and "offset = j * CHUNK_SIZE" and "prog"
  shows "\<exists>m. j \<le> m \<and> (j \<le> ceil_div (length content) CHUNK_SIZE \<longrightarrow> m \<le> ceil_div (length content) CHUNK_SIZE) \<and>
           progress_reports done' =
             progress_reports done @ map (\<lambda>k. (k * CHUNK_SIZE, length content)) [Suc j..<Suc m] \<and>
           (r = LoopDone \<longrightarrow> j \<le> ceil_div (length content) CHUNK_SIZE \<longrightarrow> m = ceil_div (length content) CHUNK_SIZE)"
  using assms
proof (induction step prog fid content offset j "done" arbitrary: r done' rule: send_chunks.induct)
  case (1 step prog fid content offset chunkIndex dn)
  let ?n = "ceil_div (length content) CHUNK_SIZE"
  note prog = \<open>prog\<close>
  note unfold = send_chunks.simps[of step prog fid content offset chunkIndex dn]
  show ?case
  proof (cases "offset < length content")
    case False
    then have eq: "r = LoopDone" "done' = dn" using "1.prems"(1)[unfolded unfold] by simp_all
    have "\<not> chunkIndex < ?n" using False "1.prems"(2) loop_continues_iff by simp
    then show ?thesis using eq by (intro exI[of _ chunkIndex]) auto
  next
    case True
    then have lt: "chunkIndex < ?n" using "1.prems"(2) loop_continues_iff by simp
    show ?thesis
    proof (cases "step chunkIndex = ChunkSent \<and> (\<exists>p. makePacket fid chunkIndex (slice_js content offset (offset + CHUNK_SIZE)) = Inr p)")
      case False
      then have "done' = dn \<and> r \<noteq> LoopDone"
        using "1.prems"(1)[unfolded unfold] True
        by (auto simp: Let_def split: chunk_step.splits sum.splits)
      then show ?thesis using lt by (intro exI[of _ chunkIndex]) auto
    next
      case sent: True
      then obtain p where p: "makePacket fid chunkIndex (slice_js content offset (offset + CHUNK_SIZE)) = Inr p"
        and st: "step chunkIndex = ChunkSent" by blast
      let ?dn = "dn @ [OnWire (WireBinary p)] @ (if prog then [Progress (offset + CHUNK_SIZE) (length content)] else [])"
      have rec: "send_chunks step prog fid content (offset + CHUNK_SIZE) (chunkIndex + 1) ?dn = (r, done')"
        using "1.prems"(1)[unfolded unfold] True p st by (simp add: Let_def)
      have off: "offset + CHUNK_SIZE = (chunkIndex + 1) * CHUNK_SIZE"
        using "1.prems"(2) by simp
      have "\<exists>m. chunkIndex + 1 \<le> m \<and> (chunkIndex + 1 \<le> ?n \<longrightarrow> m \<le> ?n) \<and>
        progress_reports done' = progress_reports ?dn @ map (\<lambda>k. (k * CHUNK_SIZE, length content)) [Suc (chunkIndex + 1)..<Suc m] \<and>
        (r = LoopDone \<longrightarrow> chunkIndex + 1 \<le> ?n \<longrightarrow> m = ?n)"
        using "1.IH"[OF True _ _ p _ rec off prog] st by simp
      then obtain m where m: "chunkIndex + 1 \<le> m" "chunkIndex + 1 \<le> ?n \<longrightarrow> m \<le> ?n"
        "progress_reports done' = progress_reports ?dn @ map (\<lambda>k. (k * CHUNK_SIZE, length content)) [Suc (chunkIndex + 1)..<Suc m]"
        "r = LoopDone \<longrightarrow> chunkIndex + 1 \<le> ?n \<longrightarrow> m = ?n"
        by blast
      have "[Suc chunkIndex..<Suc m] = Suc chunkIndex # [Suc (chunkIndex + 1)..<Suc m]"
        using m(1) by (simp add: upt_conv_Cons)
      then have "progress_reports done' = progress_reports dn @ map (\<lambda>k. (k * CHUNK_SIZE, length content)) [Suc chunkIndex..<Suc m]"
        using m(3) off prog by (simp add: progress_reports_append)
      then show ?thesis using m lt by (intro exI[of _ m]) auto
    qed
  qed
qed

lemma send_chunks_completes:
  assumes "\<forall>k. step k = ChunkSent"
      and "length (TextEncoder_encode fid) + (36 - length fid) \<le> 40"
  shows "fst (send_chunks step prog fid content offset j done) = LoopDone"
  using assms
proof (induction step prog fid content offset j "done" rule: send_chunks.induct)
  case (1 step prog fid content offset chunkIndex dn)
  note st = "1.prems"(1)
  note ok = "1.prems"(2)
  note unfold = send_chunks.simps[of step prog fid content offset chunkIndex dn]
  show ?case
  proof (cases "offset < length content")
    case False
    then show ?thesis by (simp add: unfold)
  next
    case True
    obtain p where p: "makePacket fid chunkIndex (slice_js content offset (offset + CHUNK_SIZE)) = Inr p"
      using ok by (auto simp: makePacket_eq Let_def padded_length)
    have s: "step chunkIndex = ChunkSent" using st by simp
    show ?thesis
      using "1.IH"[OF True _ _ p _ st ok] True p s by (simp add: unfold Let_def)
  qed
qed

lemma sendFile_reports:
  "\<exists>m\<le>ceil_div (length content) CHUNK_SIZE.
      progress_reports (snd (sendFile env fname ftype content True))
        = map (\<lambda>k. (k * CHUNK_SIZE, length content)) [1..<Suc m]
      \<and> (\<forall>fid. fst (sendFile env fname ftype content True) = Returned fid
            \<longrightarrow> m = ceil_div (length content) CHUNK_SIZE)"
proof -
  let ?n = "ceil_div (length content) CHUNK_SIZE"
  let ?sent = "[OnWire (WireJson (Metadata \<lparr>fileId = randomId env, name = fname,
      size_bytes = length content, fileType = ftype, chunks = ?n\<rparr>))]"
  show ?thesis
  proof (cases "isReady env \<and> metadataCheck env \<and> receiverAnswer env = Accepted \<and> acceptedCheck env")
    case False
    then have "progress_reports (snd (sendFile env fname ftype content True)) = []"
      and "\<forall>fid. fst (sendFile env fname ftype content True) \<noteq> Returned fid"
      by (auto simp: sendFile_def Let_def split: answer.splits)
    then show ?thesis by (intro exI[of _ 0]) simp
  next
    case True
    obtain r done' where sc: "send_chunks (chunkStep env) True (randomId env) content 0 0 ?sent = (r, done')"
      by (cases "send_chunks (chunkStep env) True (randomId env) content 0 0 ?sent") auto
    from send_chunks_reports[OF sc] obtain m where m: "m \<le> ?n"
      "progress_reports done' = map (\<lambda>k. (k * CHUNK_SIZE, length content)) [Suc 0..<Suc m]"
      "r = LoopDone \<longrightarrow> m = ?n"
      by auto
    have rep: "progress_reports (snd (sendFile env fname ftype content True)) = progress_reports done'"
      using True sc by (auto simp: sendFile_def Let_def progress_reports_append split: loop_end.splits)
    have ret: "\<forall>fid. fst (sendFile env fname ftype content True) = Returned fid \<longrightarrow> r = LoopDone"
      using True sc by (auto simp: sendFile_def Let_def split: loop_end.splits if_splits)
    show ?thesis using m rep ret by (intro exI[of _ m]) auto
  qed
qed

lemma final_report_exceeds:
  "S mod CHUNK_SIZE \<noteq> 0 \<Longrightarrow> S < CHUNK_SIZE * ceil_div S CHUNK_SIZE"
proof -
  assume a: "S mod CHUNK_SIZE \<noteq> 0"
  have "\<not> ceil_div S CHUNK_SIZE * CHUNK_SIZE < S"
    using loop_continues_iff[of "ceil_div S CHUNK_SIZE" S] by simp
  moreover have "ceil_div S CHUNK_SIZE * CHUNK_SIZE \<noteq> S"
    using a by (metis mod_mult_self2_is_0)
  ultimately show ?thesis by (simp add: mult.commute)
qed

lemma sendFile_returns:
  assumes "isReady env" "metadataCheck env" "receiverAnswer env = Accepted" "acceptedCheck env"
    "endCheck env" "\<forall>k. chunkStep env k = ChunkSent"
    "length (TextEncoder_encode (randomId env)) + (36 - length (randomId env)) \<le> 40"
  shows "fst (sendFile env fname ftype content prog) = Returned (randomId env)"
proof -
  let ?sent = "[OnWire (WireJson (Metadata \<lparr>fileId = randomId env, name = fname,
      size_bytes = length content, fileType = ftype, chunks = ceil_div (length content) CHUNK_SIZE\<rparr>))]"
  obtain done' where "send_chunks (chunkStep env) prog (randomId env) content 0 0 ?sent = (LoopDone, done')"
    using send_chunks_completes[OF assms(6,7), of prog content 0 0 ?sent]
    by (cases "send_chunks (chunkStep env) prog (randomId env) content 0 0 ?sent") auto
  then show ?thesis using assms by (simp add: sendFile_def Let_def)
qed

text \<open>
  Claim C10. With the progress callback given, the reports of a \<open>sendFile\<close> call on a
  file of \<open>S\<close> bytes are \<open>(k * 16384, S)\<close> for \<open>k = 1, ..., m\<close>, where \<open>m\<close> is the
  number of chunks sent: the transferred count is the loop's offset after the chunk and is
  not capped at \<open>S\<close>. A call that returns has sent all \<open>\<lceil>S / 16384\<rceil>\<close> chunks, so its
  last report is \<open>16384 * \<lceil>S / 16384\<rceil>\<close>, and it does return when the connection stays
  ready, the receiver accepts and every chunk is sent. That last count exceeds \<open>S\<close>
  whenever \<open>S\<close> is not a multiple of 16384.
\<close>

theorem sendFile_progress:
  "(\<exists>m\<le>ceil_div (length content) 16384.
      progress_reports (snd (sendFile env fname ftype content True))
        = map (\<lambda>k. (k * 16384, length content)) [1..<Suc m]
      \<and> (\<forall>fid. fst (sendFile env fname ftype content True) = Returned fid
            \<longrightarrow> m = ceil_div (length content) 16384))
   \<and> (isReady env \<and> metadataCheck env \<and> receiverAnswer env = Accepted \<and> acceptedCheck env
        \<and> endCheck env \<and> (\<forall>k. chunkStep env k = ChunkSent)
        \<and> length (TextEncoder_encode (randomId env)) + (36 - length (randomId env)) \<le> 40
      \<longrightarrow> fst (sendFile env fname ftype content True) = Returned (randomId env))
   \<and> (length content mod 16384 \<noteq> 0
      \<longrightarrow> length content < 16384 * ceil_div (length content) 16384)"
  using sendFile_reports[of content env fname ftype] final_report_exceeds[of "length content"]
    sendFile_returns[of env fname ftype content True]
  by (simp add: CHUNK_SIZE_def)

theorem sendFile_progress_witness:
  "progress_reports (snd (sendFile
      \<lparr>isReady = True, randomId = js ''k3x9'', metadataCheck = True, receiverAnswer = Accepted,
       cancelSent = False, acceptedCheck = True, chunkStep = (\<lambda>k. ChunkSent), endCheck = True\<rparr>
      (js ''a.bin'') [] (replicate 20000 0) True))
     = [(16384, 20000), (32768, 20000)]
   \<and> fst (sendFile
      \<lparr>isReady = True, randomId = js ''k3x9'', metadataCheck = True, receiverAnswer = Accepted,
       cancelSent = False, acceptedCheck = True, chunkStep = (\<lambda>k. ChunkSent), endCheck = True\<rparr>
      (js ''a.bin'') [] (replicate 20000 0) True) = Returned (js ''k3x9'')
   \<and> (20000::nat) < 16384 * ceil_div 20000 16384"
proof -
  let ?env = "\<lparr>isReady = True, randomId = js ''k3x9'', metadataCheck = True,
       receiverAnswer = Accepted, cancelSent = False, acceptedCheck = True,
       chunkStep = (\<lambda>k. ChunkSent), endCheck = True\<rparr>"
  let ?content = "replicate 20000 (0::byte)"
  have j: "js ''k3x9'' = [0x6B, 0x33, 0x78, 0x39]" by (simp add: js_def)
  have en: "TextEncoder_encode (js ''k3x9'') = [0x6B, 0x33, 0x78, 0x39]"
    unfolding j by (subst encode_ascii) simp_all
  have fits: "length (TextEncoder_encode (randomId ?env)) + (36 - length (randomId ?env)) \<le> 40"
    by (simp add: en)
  have n: "ceil_div (length ?content) 16384 = 2" by (simp add: ceil_div_def)
  have nm: "length ?content mod 16384 \<noteq> 0" by simp
  note inst = sendFile_progress[of ?content ?env "js ''a.bin''" "[]"]
  from inst fits have ret: "fst (sendFile ?env (js ''a.bin'') [] ?content True) = Returned (js ''k3x9'')"
    by simp
  from inst ret obtain m where
    "progress_reports (snd (sendFile ?env (js ''a.bin'') [] ?content True))
       = map (\<lambda>k. (k * 16384, length ?content)) [1..<Suc m]" "m = 2"
    unfolding n by blast
  then have rep: "progress_reports (snd (sendFile ?env (js ''a.bin'') [] ?content True))
       = [(16384, 20000), (32768, 20000)]"
    by (simp add: upt_rec)
  from inst nm have "length ?content < 16384 * ceil_div (length ?content) 16384" by blast
  then have "(20000::nat) < 16384 * ceil_div 20000 16384" by simp
  with rep ret show ?thesis by blast
qed


section \<open>Properties of receiveFile\<close>

lemma chunk_bytes_append:
  "chunk_bytes fid (a @ b) = chunk_bytes fid a @ chunk_bytes fid b"
  by (induction fid a rule: chunk_bytes.induct) simp_all

lemma receive_run_snoc:
  "receive_run fid prog init (evs @ [e]) = receive_step fid prog (receive_run fid prog init evs) e"
  by (simp add: receive_run_def)

lemma receive_run_append:
  "receive_run fid prog init (a @ b) = foldl (receive_step fid prog) (receive_run fid prog init a) b"
  by (simp add: receive_run_def)

lemma listening_iff_unsettled:
  "rs_listening (receive_run fid prog init evs) = (rs_settled (receive_run fid prog init evs) = None)"
proof (induction evs rule: rev_induct)
  case Nil
  then show ?case by (simp add: receive_run_def receiveFile_def)
next
  case (snoc e evs)
  show ?case
  proof (cases e)
    case (Msg m)
    then show ?thesis using snoc
      by (cases m) (auto simp: receive_run_snoc Let_def split: option.splits)
  next
    case TimerFired
    then show ?thesis by (auto simp: receive_run_snoc split: option.splits)
  qed
qed

lemma before_metadata:
  assumes "\<forall>e\<in>set pre. \<not> is_metadata_for fid e"
  shows "receive_run fid prog None pre =
           (receiveFile None)\<lparr>rs_listening := TimerFired \<notin> set pre,
              rs_settled := (if TimerFired \<in> set pre then Some TimedOut else None)\<rparr>"
  using assms
proof (induction pre rule: rev_induct)
  case Nil
  then show ?case by (simp add: receive_run_def receiveFile_def)
next
  case (snoc e evs)
  then have ih: "receive_run fid prog None evs =
           (receiveFile None)\<lparr>rs_listening := TimerFired \<notin> set evs,
              rs_settled := (if TimerFired \<in> set evs then Some TimedOut else None)\<rparr>"
    and nm: "\<not> is_metadata_for fid e" by simp_all
  show ?case
  proof (cases e)
    case (Msg m)
    then show ?thesis using ih nm
      by (cases m) (auto simp: receive_run_snoc receiveFile_def)
  next
    case TimerFired
    then show ?thesis using ih by (auto simp: receive_run_snoc receiveFile_def)
  qed
qed

lemma unsettled_shape:
  assumes "rs_settled (receive_run fid prog None evs) = None"
  shows "case rs_metadata (receive_run fid prog None evs) of
      None \<Rightarrow> rs_chunks (receive_run fid prog None evs) = []
    | Some m \<Rightarrow>
        \<exists>pre post. evs = pre @ [Msg (Metadata m)] @ post \<and> fileId m = fid
           \<and> (\<forall>e\<in>set post. \<not> is_metadata_for fid e)
           \<and> rs_chunks (receive_run fid prog None evs) = chunk_bytes fid post"
proof -
  define shape where "shape = (\<lambda>evs m cs. \<exists>pre post. evs = pre @ [Msg (Metadata m)] @ post
       \<and> fileId m = fid \<and> (\<forall>e\<in>set post. \<not> is_metadata_for fid e) \<and> cs = chunk_bytes fid post)"
  have step_ext: "shape (evs @ [e]) m (cs @ chunk_bytes fid [e])"
    if "shape evs m cs" "\<not> is_metadata_for fid e" for evs m cs e
  proof -
    from that(1) obtain pre post where d: "evs = pre @ [Msg (Metadata m)] @ post" "fileId m = fid"
       "\<forall>e\<in>set post. \<not> is_metadata_for fid e" "cs = chunk_bytes fid post"
      unfolding shape_def by blast
    have "evs @ [e] = pre @ [Msg (Metadata m)] @ (post @ [e])" using d(1) by simp
    moreover have "\<forall>x\<in>set (post @ [e]). \<not> is_metadata_for fid x" using d(3) that(2) by simp
    moreover have "cs @ chunk_bytes fid [e] = chunk_bytes fid (post @ [e])"
      using d(4) by (simp add: chunk_bytes_append)
    ultimately show ?thesis unfolding shape_def using d(2) by blast
  qed
  have step_new: "shape (evs @ [Msg (Metadata m)]) m []" if "fileId m = fid" for evs m
  proof -
    have "evs @ [Msg (Metadata m)] = evs @ [Msg (Metadata m)] @ []" by simp
    moreover have "[] = chunk_bytes fid []" by simp
    ultimately show ?thesis unfolding shape_def using that by (metis empty_iff list.set(1))
  qed
  have main: "rs_settled (receive_run fid prog None evs) = None \<Longrightarrow>
     (case rs_metadata (receive_run fid prog None evs) of
        None \<Rightarrow> rs_chunks (receive_run fid prog None evs) = []
      | Some m \<Rightarrow> shape evs m (rs_chunks (receive_run fid prog None evs)))" for evs
  proof (induction evs rule: rev_induct)
    case Nil
    then show ?case by (simp add: receive_run_def receiveFile_def)
  next
    case (snoc e evs)
    let ?s = "receive_run fid prog None evs"
    have un: "rs_settled ?s = None"
      using snoc.prems listening_iff_unsettled[of fid prog None evs]
      by (cases e; cases "rs_settled ?s")
         (auto simp: receive_run_snoc split: if_splits option.splits DataMessage.splits)
    then have li: "rs_listening ?s" using listening_iff_unsettled by simp
    note ih = snoc.IH[OF un]
    show ?case
    proof (cases e)
      case TimerFired
      then show ?thesis using snoc.prems by (simp add: receive_run_snoc split: option.splits)
    next
      case (Msg msg)
      show ?thesis
      proof (cases "rs_metadata ?s")
        case None
        then show ?thesis using ih Msg li step_new[of _ evs]
          by (cases msg) (auto simp: receive_run_snoc)
      next
        case (Some m)
        then have sh: "shape evs m (rs_chunks ?s)" using ih by simp
        show ?thesis
        proof (cases "is_metadata_for fid e")
          case True
          then obtain m' where "msg = Metadata m'" "fileId m' = fid"
            using Msg by (cases msg) auto
          then show ?thesis using Msg li step_new[of m' evs] by (simp add: receive_run_snoc)
        next
          case False
          note ext = step_ext[OF sh False]
          show ?thesis using ext Msg li Some snoc.prems False
            by (cases msg) (auto simp: receive_run_snoc Let_def split: if_splits)
        qed
      qed
    qed
  qed
  show ?thesis using main[OF assms] unfolding shape_def by (simp split: option.splits)
qed

lemma settled_stays:
  "rs_settled s = Some r \<Longrightarrow> \<not> rs_listening s \<Longrightarrow>
   rs_settled (foldl (receive_step fid prog) s evs) = Some r"
proof (induction evs arbitrary: s)
  case Nil
  then show ?case by simp
next
  case (Cons e evs)
  have "rs_settled (receive_step fid prog s e) = Some r \<and> \<not> rs_listening (receive_step fid prog s e)"
    using Cons.prems by (cases e) auto
  then show ?case using Cons.IH by simp
qed

lemma resolved_shape:
  assumes "rs_settled (receive_run fid prog None evs) = Some (Resolved f m)"
  shows "\<exists>pre post rest. evs = pre @ [Msg (Metadata m)] @ post @ [Msg (End fid)] @ rest
      \<and> fileId m = fid \<and> (\<forall>e\<in>set post. \<not> is_metadata_for fid e)
      \<and> f = \<lparr>file_name = name m, file_type = fileType m,
              file_bytes = concat (chunk_bytes fid post)\<rparr>"
  using assms
proof (induction evs rule: rev_induct)
  case Nil
  then show ?case by (simp add: receive_run_def receiveFile_def)
next
  case (snoc e evs)
  let ?s = "receive_run fid prog None evs"
  show ?case
  proof (cases "rs_settled ?s")
    case (Some r)
    then have nl: "\<not> rs_listening ?s" using listening_iff_unsettled by simp
    have "rs_settled (receive_run fid prog None (evs @ [e])) = Some r"
      using Some nl by (cases e) (auto simp: receive_run_snoc)
    then have "rs_settled ?s = Some (Resolved f m)" using snoc.prems Some by simp
    from snoc.IH[OF this] obtain pre post rest where
      d: "evs = pre @ [Msg (Metadata m)] @ post @ [Msg (End fid)] @ rest" "fileId m = fid"
         "\<forall>e\<in>set post. \<not> is_metadata_for fid e"
         "f = \<lparr>file_name = name m, file_type = fileType m, file_bytes = concat (chunk_bytes fid post)\<rparr>"
      by blast
    have "evs @ [e] = pre @ [Msg (Metadata m)] @ post @ [Msg (End fid)] @ (rest @ [e])"
      using d(1) by simp
    then show ?thesis using d(2,3,4) by blast
  next
    case None
    then have li: "rs_listening ?s" using listening_iff_unsettled by simp
    have stepped: "rs_settled (receive_step fid prog ?s e) = Some (Resolved f m)"
      using snoc.prems by (simp add: receive_run_snoc)
    obtain msg where msg: "e = Msg msg"
      using stepped None by (cases e) auto
    have lis: "rs_settled (listener fid prog msg ?s) = Some (Resolved f m)"
      using stepped msg li by simp
    obtain g where g: "msg = End g"
      using lis None by (cases msg) (auto simp: Let_def split: if_splits option.splits)
    have gf: "g = fid" using lis None g by (auto split: if_splits)
    have e: "e = Msg (End fid)" using msg g gf by simp
    obtain m0 where m0: "rs_metadata ?s = Some m0"
      using lis None g gf by (cases "rs_metadata ?s") auto
    have md: "rs_metadata ?s = Some m"
      and f: "f = \<lparr>file_name = name m, file_type = fileType m, file_bytes = concat (rs_chunks ?s)\<rparr>"
      using lis None g gf m0 by auto
    from unsettled_shape[OF None] md obtain pre post where
      d: "evs = pre @ [Msg (Metadata m)] @ post" "fileId m = fid"
         "\<forall>e\<in>set post. \<not> is_metadata_for fid e" "rs_chunks ?s = chunk_bytes fid post"
      by auto
    have "evs @ [e] = pre @ [Msg (Metadata m)] @ post @ [Msg (End fid)] @ []"
      using d(1) e by simp
    moreover have "f = \<lparr>file_name = name m, file_type = fileType m,
              file_bytes = concat (chunk_bytes fid post)\<rparr>"
      using f d(4) by simp
    ultimately show ?thesis using d(2,3) by blast
  qed
qed

lemma collect_chunks:
  assumes "rs_metadata s = Some m" "rs_listening s" "rs_settled s = None"
      and "\<forall>e\<in>set post. \<not> is_metadata_for fid e \<and> e \<noteq> Msg (End fid) \<and> e \<noteq> TimerFired"
  shows "rs_metadata (foldl (receive_step fid prog) s post) = Some m
       \<and> rs_listening (foldl (receive_step fid prog) s post)
       \<and> rs_settled (foldl (receive_step fid prog) s post) = None
       \<and> rs_chunks (foldl (receive_step fid prog) s post) = rs_chunks s @ chunk_bytes fid post"
  using assms
proof (induction post arbitrary: s)
  case Nil
  then show ?case by simp
next
  case (Cons e post)
  let ?t = "receive_step fid prog s e"
  have t: "rs_metadata ?t = Some m \<and> rs_listening ?t \<and> rs_settled ?t = None
       \<and> rs_chunks ?t = rs_chunks s @ chunk_bytes fid [e]"
  proof (cases e)
    case TimerFired
    then show ?thesis using Cons.prems by simp
  next
    case (Msg msg)
    then show ?thesis using Cons.prems by (cases msg) (auto simp: Let_def)
  qed
  have "\<forall>e\<in>set post. \<not> is_metadata_for fid e \<and> e \<noteq> Msg (End fid) \<and> e \<noteq> TimerFired"
    using Cons.prems(4) by simp
  from Cons.IH[OF _ _ _ this, of ?t] t
  show ?case using chunk_bytes_append[of fid "[e]" post] by simp
qed

lemma resolves:
  assumes pre: "\<forall>e\<in>set pre. \<not> is_metadata_for fid e" "TimerFired \<notin> set pre"
      and m: "fileId m = fid"
      and post: "\<forall>e\<in>set post. \<not> is_metadata_for fid e \<and> e \<noteq> Msg (End fid) \<and> e \<noteq> TimerFired"
  shows "rs_settled (receive_run fid prog None
            (pre @ [Msg (Metadata m)] @ post @ [Msg (End fid)] @ rest))
         = Some (Resolved \<lparr>file_name = name m, file_type = fileType m,
                           file_bytes = concat (chunk_bytes fid post)\<rparr> m)"
proof -
  let ?step = "receive_step fid prog"
  let ?s1 = "receive_run fid prog None pre"
  have s1: "?s1 = receiveFile None" using before_metadata[OF pre(1), of prog] pre(2)
    by (simp add: receiveFile_def)
  let ?s2 = "?step ?s1 (Msg (Metadata m))"
  have s2: "rs_metadata ?s2 = Some m" "rs_listening ?s2" "rs_settled ?s2 = None" "rs_chunks ?s2 = []"
    using m by (simp_all add: s1 receiveFile_def)
  let ?s3 = "foldl ?step ?s2 post"
  have s3: "rs_metadata ?s3 = Some m" "rs_listening ?s3" "rs_settled ?s3 = None"
    "rs_chunks ?s3 = chunk_bytes fid post"
    using collect_chunks[OF s2(1,2,3) post, of prog] s2(4) by simp_all
  let ?s4 = "?step ?s3 (Msg (End fid))"
  let ?r = "Resolved \<lparr>file_name = name m, file_type = fileType m,
                           file_bytes = concat (chunk_bytes fid post)\<rparr> m"
  have s4: "rs_settled ?s4 = Some ?r" "\<not> rs_listening ?s4"
    using s3 by simp_all
  have "receive_run fid prog None (pre @ [Msg (Metadata m)] @ post @ [Msg (End fid)] @ rest)
          = foldl ?step ?s4 rest"
    by (simp add: receive_run_def)
  then show ?thesis using settled_stays[OF s4, of fid prog rest] by simp
qed

lemma timer_settles:
  "TimerFired \<in> set evs \<Longrightarrow> rs_settled (receive_run fid prog init evs) \<noteq> None"
proof (induction evs rule: rev_induct)
  case Nil
  then show ?case by simp
next
  case (snoc e evs)
  show ?case
  proof (cases "e = TimerFired")
    case True
    then show ?thesis by (simp add: receive_run_snoc split: option.splits)
  next
    case False
    then have "rs_settled (receive_run fid prog init evs) \<noteq> None" using snoc by simp
    then obtain r where r: "rs_settled (receive_run fid prog init evs) = Some r" by blast
    then have "\<not> rs_listening (receive_run fid prog init evs)"
      using listening_iff_unsettled by simp
    then show ?thesis using r by (cases e) (simp_all add: receive_run_snoc)
  qed
qed

text \<open>
  Claim C9. A session opened without initial metadata stays as it was opened, with nothing
  buffered, no progress reported and the promise unsettled, through any messages that are
  not a Metadata for its fileId: chunks for the fileId are dropped and an End does not
  resolve it; only the timer settles it then, as a failure. After such a prefix, a Metadata
  for the fileId followed by chunks and an End resolves the session with the bytes of
  exactly the chunks for the fileId that came after the Metadata. Conversely, whenever the
  session is resolved, the events seen contain a Metadata for the fileId and later an End,
  with no further Metadata in between, and the file consists of the chunks for the fileId
  between the two. Once the timer has fired the session is settled.
\<close>

theorem receive_needs_metadata:
  "((\<forall>e\<in>set pre. \<not> is_metadata_for fid e) \<longrightarrow>
      rs_metadata (receive_run fid prog None pre) = None
      \<and> rs_chunks (receive_run fid prog None pre) = []
      \<and> rs_receivedSize (receive_run fid prog None pre) = 0
      \<and> rs_progress (receive_run fid prog None pre) = []
      \<and> rs_settled (receive_run fid prog None pre)
          = (if TimerFired \<in> set pre then Some TimedOut else None))
   \<and> ((\<forall>e\<in>set pre. \<not> is_metadata_for fid e) \<and> TimerFired \<notin> set pre \<and> fileId m = fid
       \<and> (\<forall>e\<in>set post. \<not> is_metadata_for fid e \<and> e \<noteq> Msg (End fid) \<and> e \<noteq> TimerFired) \<longrightarrow>
      rs_settled (receive_run fid prog None
          (pre @ [Msg (Metadata m)] @ post @ [Msg (End fid)] @ rest))
        = Some (Resolved \<lparr>file_name = name m, file_type = fileType m,
                          file_bytes = concat (chunk_bytes fid post)\<rparr> m))
   \<and> (\<forall>f md. rs_settled (receive_run fid prog None evs) = Some (Resolved f md) \<longrightarrow>
        (\<exists>before after rest'.
            evs = before @ [Msg (Metadata md)] @ after @ [Msg (End fid)] @ rest'
            \<and> fileId md = fid \<and> (\<forall>e\<in>set after. \<not> is_metadata_for fid e)
            \<and> f = \<lparr>file_name = name md, file_type = fileType md,
                    file_bytes = concat (chunk_bytes fid after)\<rparr>))
   \<and> (TimerFired \<in> set evs \<longrightarrow> rs_settled (receive_run fid prog None evs) \<noteq> None)"
proof (intro conjI impI allI)
  assume a: "\<forall>e\<in>set pre. \<not> is_metadata_for fid e"
  note b = before_metadata[OF a, of prog]
  show "rs_metadata (receive_run fid prog None pre) = None"
    and "rs_chunks (receive_run fid prog None pre) = []"
    and "rs_receivedSize (receive_run fid prog None pre) = 0"
    and "rs_progress (receive_run fid prog None pre) = []"
    and "rs_settled (receive_run fid prog None pre)
          = (if TimerFired \<in> set pre then Some TimedOut else None)"
    by (simp_all add: b receiveFile_def)
next
  assume "(\<forall>e\<in>set pre. \<not> is_metadata_for fid e) \<and> TimerFired \<notin> set pre \<and> fileId m = fid
       \<and> (\<forall>e\<in>set post. \<not> is_metadata_for fid e \<and> e \<noteq> Msg (End fid) \<and> e \<noteq> TimerFired)"
  then show "rs_settled (receive_run fid prog None
          (pre @ [Msg (Metadata m)] @ post @ [Msg (End fid)] @ rest))
        = Some (Resolved \<lparr>file_name = name m, file_type = fileType m,
                          file_bytes = concat (chunk_bytes fid post)\<rparr> m)"
    using resolves[of pre fid m post prog rest] by blast
next
  fix f md
  assume "rs_settled (receive_run fid prog None evs) = Some (Resolved f md)"
  then show "\<exists>before after rest'.
            evs = before @ [Msg (Metadata md)] @ after @ [Msg (End fid)] @ rest'
            \<and> fileId md = fid \<and> (\<forall>e\<in>set after. \<not> is_metadata_for fid e)
            \<and> f = \<lparr>file_name = name md, file_type = fileType md,
                    file_bytes = concat (chunk_bytes fid after)\<rparr>"
    by (rule resolved_shape)
next
  assume "TimerFired \<in> set evs"
  then show "rs_settled (receive_run fid prog None evs) \<noteq> None" by (rule timer_settles)
qed

theorem receive_needs_metadata_witness:
  "rs_chunks (receive_run (js ''f1'') True None
      [Msg (Chunk (js ''f1'') 0 [1]), Msg (End (js ''f1''))]) = []
   \<and> rs_settled (receive_run (js ''f1'') True None
      [Msg (Chunk (js ''f1'') 0 [1]), Msg (End (js ''f1''))]) = None
   \<and> rs_settled (receive_run (js ''f1'') True None
      ([Msg (Chunk (js ''f1'') 0 [1]), Msg (End (js ''f1''))]
        @ [Msg (Metadata \<lparr>fileId = js ''f1'', name = js ''a.bin'', size_bytes = 2,
                           fileType = [], chunks = 1\<rparr>)]
        @ [Msg (Chunk (js ''f1'') 0 [2, 3]), Msg (Chunk (js ''g7'') 0 [9])]
        @ [Msg (End (js ''f1''))] @ [TimerFired]))
     = Some (Resolved \<lparr>file_name = js ''a.bin'', file_type = [], file_bytes = [2, 3]\<rparr>
               \<lparr>fileId = js ''f1'', name = js ''a.bin'', size_bytes = 2, fileType = [], chunks = 1\<rparr>)"
proof -
  let ?fid = "js ''f1''"
  let ?pre = "[Msg (Chunk ?fid 0 [1]), Msg (End ?fid)]"
  let ?m = "\<lparr>fileId = ?fid, name = js ''a.bin'', size_bytes = 2, fileType = [], chunks = 1\<rparr>"
  let ?post = "[Msg (Chunk ?fid 0 [2, 3]), Msg (Chunk (js ''g7'') 0 [9])]"
  have ne: "js ''g7'' \<noteq> js ''f1''" by (simp add: js_def)
  have h1: "\<forall>e\<in>set ?pre. \<not> is_metadata_for ?fid e" by simp
  have h2: "TimerFired \<notin> set ?pre" by simp
  have h3: "fileId ?m = ?fid" by simp
  have h4: "\<forall>e\<in>set ?post. \<not> is_metadata_for ?fid e \<and> e \<noteq> Msg (End ?fid) \<and> e \<noteq> TimerFired"
    by simp
  have cb: "concat (chunk_bytes ?fid ?post) = [2, 3]" using ne by simp
  note inst = receive_needs_metadata[of ?pre ?fid True ?m ?post "[TimerFired]" "[]"]
  from inst h1 have "rs_chunks (receive_run ?fid True None ?pre) = []"
    and "rs_settled (receive_run ?fid True None ?pre) = None"
    by simp_all
  moreover from inst h1 h2 h3 h4
  have "rs_settled (receive_run ?fid True None
          (?pre @ [Msg (Metadata ?m)] @ ?post @ [Msg (End ?fid)] @ [TimerFired]))
        = Some (Resolved \<lparr>file_name = name ?m, file_type = fileType ?m,
                          file_bytes = concat (chunk_bytes ?fid ?post)\<rparr> ?m)"
    by blast
  ultimately show ?thesis unfolding cb by simp
qed


section \<open>Properties of the connection manager\<close>

subsection \<open>Auxiliary facts\<close>

lemma js_inj: "(js a = js b) = (a = b)"
proof -
  have "inj (\<lambda>c::char. (of_nat (of_char c) :: 16 word))"
  proof (rule injI)
    fix x y :: char
    assume "(of_nat (of_char x) :: 16 word) = of_nat (of_char y)"
    then have "unat (of_nat (of_char x) :: 16 word) = unat (of_nat (of_char y) :: 16 word)" by simp
    moreover have "(of_char x :: nat) < 256" "(of_char y :: nat) < 256" by simp_all
    ultimately have "(of_char x :: nat) = of_char y" by (simp add: unat_of_nat)
    then show "x = y" by simp
  qed
  then show ?thesis unfolding js_def by (simp add: inj_map_eq_map)
qed

lemma low_not_envelope: "t \<in> set low_level_types \<Longrightarrow> t \<notin> set envelope_types"
  by (auto simp: low_level_types_def envelope_types_def js_inj)

lemma getMessageType_string:
  "getMessageType JSON_parse (JStr s) =
     (case JSON_parse s of
        Inl e \<Rightarrow> JStr (js ''text'')
      | Inr parsed \<Rightarrow>
          if parsed = JNull \<or> parsed = JUndefined then JStr (js ''text'')
          else if obj_get parsed (js ''type'') \<in> set envelope_types then obj_get parsed (js ''type'')
          else JStr (js ''file''))"
proof (cases "JSON_parse s")
  case (Inl e)
  then show ?thesis by (simp add: getMessageType_def bindE_def)
next
  case (Inr parsed)
  then show ?thesis
    by (cases parsed) (simp_all add: getMessageType_def bindE_def)
qed

lemma getMessageType_object:
  "getMessageType JSON_parse (JObj fs) =
     (if js ''type'' \<in> fst ` set fs then
        (if obj_get (JObj fs) (js ''type'') \<in> set low_level_types then JStr (js ''file'')
         else obj_get (JObj fs) (js ''type''))
      else JStr (js ''file''))"
  by (simp add: getMessageType_def)

lemma getMessageType_buffer: "getMessageType JSON_parse (JBuffer bs) = JStr (js ''file'')"
  by (simp add: getMessageType_def)

lemma handshake_type_object:
  assumes "obj_get (JObj fs) (js ''type'') = JStr (js ''handshake'')"
  shows "getMessageType JSON_parse (JObj fs) = JStr (js ''handshake'')"
proof -
  have "obj_get (JObj fs) (js ''type'') \<in> set envelope_types"
    using assms by (simp add: envelope_types_def)
  then have "obj_get (JObj fs) (js ''type'') \<noteq> JUndefined
      \<and> obj_get (JObj fs) (js ''type'') \<notin> set low_level_types"
    using low_not_envelope by (auto simp: envelope_types_def)
  moreover from this obtain v where "map_of fs (js ''type'') = Some v"
    by (cases "map_of fs (js ''type'')") auto
  then have "(js ''type'', v) \<in> set fs" by (rule map_of_SomeD)
  then have "js ''type'' \<in> fst ` set fs" by force
  ultimately show ?thesis using assms unfolding getMessageType_object by simp
qed



lemma tryConnection_fails:
  assumes "kind = HYBRID \<or> outcome = NoConnection"
  shows "tryConnection d kind outcome m = (Settles False, m\<lparr>trace := trace m @ [Attempted kind]\<rparr>)"
  using assms
  by (cases kind; cases outcome)
     (simp_all add: tryConnection_def tryWebRTCConnection_def tryWebSocketConnection_def)


lemma tryConnection_websocket_opens:
  "tryConnection d WEBSOCKET (Opens conn t) m =
     (Unsettled,
      \<lparr>reg = (reg m)\<lparr>connections := (connections (reg m))(d \<mapsto> conn)\<rparr>,
       trace = trace m @ [Attempted WEBSOCKET]\<rparr>)"
  by (simp add: tryConnection_def tryWebSocketConnection_def setupWebSocketHandlers_def Let_def)


lemma first_open_step:
  assumes "\<forall>j<Suc k. (kind # rest) ! j = HYBRID \<or> env (i + j) = NoConnection"
  shows "tryConnection d kind (env i) m = (Settles False, m\<lparr>trace := trace m @ [Attempted kind]\<rparr>)"
    and "\<forall>j<k. rest ! j = HYBRID \<or> env (i + 1 + j) = NoConnection"
proof -
  have "(kind # rest) ! 0 = HYBRID \<or> env (i + 0) = NoConnection"
    using assms by blast
  then show "tryConnection d kind (env i) m = (Settles False, m\<lparr>trace := trace m @ [Attempted kind]\<rparr>)"
    using tryConnection_fails[of kind "env i" d m] by simp
  show "\<forall>j<k. rest ! j = HYBRID \<or> env (i + 1 + j) = NoConnection"
  proof (intro allI impI)
    fix j assume "j < k"
    then have "Suc j < Suc k" by simp
    with assms have "(kind # rest) ! Suc j = HYBRID \<or> env (i + Suc j) = NoConnection"
      by blast
    then show "rest ! j = HYBRID \<or> env (i + 1 + j) = NoConnection" by simp
  qed
qed


lemma try_fallbacks_websocket:
  assumes "k < length kinds" and "kinds ! k = WEBSOCKET" and "env (i + k) = Opens conn t"
      and "\<forall>j<k. kinds ! j = HYBRID \<or> env (i + j) = NoConnection"
  shows "try_fallbacks env d i kinds m =
     (Unsettled,
      \<lparr>reg = (reg m)\<lparr>connections := (connections (reg m))(d \<mapsto> conn)\<rparr>,
       trace = trace m @ map Attempted (take (Suc k) kinds)\<rparr>)"
  using assms
proof (induction k arbitrary: i m kinds)
  case 0
  then obtain rest where ks: "kinds = WEBSOCKET # rest" by (cases kinds) auto
  have e: "env i = Opens conn t" using "0.prems"(3) by simp
  have tk: "map Attempted (take (Suc 0) (WEBSOCKET # rest)) = [Attempted WEBSOCKET]" by simp
  show ?case
    unfolding ks tk
    by (simp only: try_fallbacks.simps e tryConnection_websocket_opens
        prod.case promise.case)
next
  case (Suc k)
  then obtain kind rest where ks: "kinds = kind # rest" by (cases kinds) auto
  let ?m1 = "m\<lparr>trace := trace m @ [Attempted kind]\<rparr>"
  have before: "\<forall>j<Suc k. (kind # rest) ! j = HYBRID \<or> env (i + j) = NoConnection"
    using Suc.prems(4) unfolding ks .
  have f: "tryConnection d kind (env i) m = (Settles False, ?m1)"
    by (rule first_open_step(1)[OF before])
  have later: "\<forall>j<k. rest ! j = HYBRID \<or> env (i + 1 + j) = NoConnection"
    by (rule first_open_step(2)[OF before])
  have k1: "k < length rest" and k2: "rest ! k = WEBSOCKET" and k3: "env (i + 1 + k) = Opens conn t"
    using Suc.prems(1,2,3) by (simp_all add: ks)
  have "try_fallbacks env d i kinds m = try_fallbacks env d (i + 1) rest ?m1"
    using f by (simp add: ks)
  also note Suc.IH[OF k1 k2 k3 later]
  finally show ?case by (simp add: ks)
qed

lemma connectToDevice_alt:
  assumes "\<not> has_active_connection mgr d"
  shows "connectToDevice strategy env now d mgr =
     (let state = \<lparr>cs_type = preferredType strategy, cs_status = StConnecting,
                     cs_deviceId = d, cs_latency = None, cs_lastActive = now\<rparr>;
          mgr1 = emitEvent (stateChanged d state)
                     (mgr\<lparr>reg := (reg mgr)\<lparr>connectionStates := (connectionStates (reg mgr))(d \<mapsto> state)\<rparr>\<rparr>)
      in case try_fallbacks env d 0 (preferredType strategy # fallbackTypes strategy) mgr1 of
           (Settles success, mgr3) \<Rightarrow> finish_connect d success mgr3
         | (other, mgr3) \<Rightarrow> (other, mgr3))"
  using assms
  by (auto simp: connectToDevice_def Let_def split: prod.splits promise.splits bool.splits)

text \<open>
  What the absent \<open>setupWebSocketHandlers\<close> does to a call: when the first attempt whose
  connection opens is a WebSocket attempt, the connection is registered, the call of the
  absent method throws in the \<open>onOpen\<close> callback, and the promise of \<open>connectToDevice\<close>
  never settles; the stored state keeps the preferred kind and the status connecting.
\<close>

lemma connectToDevice_websocket_opens:
  assumes na: "\<not> has_active_connection mgr d"
      and k: "k < length (preferredType strategy # fallbackTypes strategy)"
             "(preferredType strategy # fallbackTypes strategy) ! k = WEBSOCKET"
             "env k = Opens conn t"
             "\<forall>j<k. (preferredType strategy # fallbackTypes strategy) ! j = HYBRID
                     \<or> env j = NoConnection"
  shows "fst (connectToDevice strategy env now d mgr) = Unsettled"
    and "connections (reg (snd (connectToDevice strategy env now d mgr))) d = Some conn"
    and "connectionStates (reg (snd (connectToDevice strategy env now d mgr))) d
           = Some \<lparr>cs_type = preferredType strategy, cs_status = StConnecting,
                   cs_deviceId = d, cs_latency = None, cs_lastActive = now\<rparr>"
proof -
  let ?ks = "preferredType strategy # fallbackTypes strategy"
  let ?state = "\<lparr>cs_type = preferredType strategy, cs_status = StConnecting,
                     cs_deviceId = d, cs_latency = None, cs_lastActive = now\<rparr>"
  let ?mgr1 = "emitEvent (stateChanged d ?state)
                 (mgr\<lparr>reg := (reg mgr)\<lparr>connectionStates := (connectionStates (reg mgr))(d \<mapsto> ?state)\<rparr>\<rparr>)"
  let ?res = "connectToDevice strategy env now d mgr"
  have alt: "?res = (case try_fallbacks env d 0 ?ks ?mgr1 of
           (Settles success, mgr3) \<Rightarrow> finish_connect d success mgr3
         | (other, mgr3) \<Rightarrow> (other, mgr3))"
    using connectToDevice_alt[OF na, of strategy env now] by (simp add: Let_def)
  have k3: "env (0 + k) = Opens conn t"
    and k4: "\<forall>j<k. ?ks ! j = HYBRID \<or> env (0 + j) = NoConnection"
    using k(3,4) by simp_all
  note tf = try_fallbacks_websocket[OF k(1) k(2) k3 k4, of d ?mgr1]
  show "fst ?res = Unsettled" unfolding alt tf by simp
  show "connections (reg (snd ?res)) d = Some conn" unfolding alt tf by simp
  show "connectionStates (reg (snd ?res)) d = Some ?state"
    unfolding alt tf by (simp add: emitEvent_def)
qed

lemma connectToDevice_default_strategy_websocket:
  "fst (connectToDevice
          \<lparr>preferredType = WEBRTC, fallbackTypes = [WEBSOCKET], timeout = 10000, retryAttempts = 3\<rparr>
          (\<lambda>i. if i = 1 then Opens (WebSocketConnection 0) 150 else NoConnection)
          100 (JStr (js ''dev-1''))
          \<lparr>reg = \<lparr>connections = Map.empty, connectionStates = Map.empty,
                   messageHandlers = Map.empty\<rparr>, trace = []\<rparr>) = Unsettled"
  by (simp add: connectToDevice_def has_active_connection_def tryConnection_def
      tryWebRTCConnection_def tryWebSocketConnection_def setupWebSocketHandlers_def
      emitEvent_def Let_def)


subsection \<open>Message classification\<close>

text \<open>
  Claim C5, as the code has it. A string that does not parse as JSON, or that parses to
  null, is classified as \<open>text\<close>. A string that parses to an object whose type is one of
  \<open>text\<close>, \<open>file\<close>, \<open>control\<close>, \<open>handshake\<close> is classified as that type, and a string
  that parses to anything else, the chunk-protocol tags included, as \<open>file\<close>. An object
  that is already parsed is classified as its type when that is one of the four, as
  \<open>file\<close> when its type is one of \<open>metadata\<close>, \<open>chunk\<close>, \<open>end\<close>, \<open>ack\<close>,
  \<open>file_accept\<close>, \<open>file_reject\<close>, \<open>file_cancel\<close> or when it has no type; binary data
  is classified as \<open>file\<close>.
\<close>

theorem getMessageType_cases:
  "(\<forall>s e. JSON_parse s = Inl e \<longrightarrow> getMessageType JSON_parse (JStr s) = JStr (js ''text''))
   \<and> (\<forall>s. JSON_parse s = Inr JNull \<longrightarrow> getMessageType JSON_parse (JStr s) = JStr (js ''text''))
   \<and> (\<forall>s fs. JSON_parse s = Inr (JObj fs)
          \<and> obj_get (JObj fs) (js ''type'') \<in> set envelope_types \<longrightarrow>
        getMessageType JSON_parse (JStr s) = obj_get (JObj fs) (js ''type''))
   \<and> (\<forall>s parsed. JSON_parse s = Inr parsed \<and> parsed \<noteq> JNull \<and> parsed \<noteq> JUndefined
          \<and> obj_get parsed (js ''type'') \<notin> set envelope_types \<longrightarrow>
        getMessageType JSON_parse (JStr s) = JStr (js ''file''))
   \<and> (\<forall>fs. obj_get (JObj fs) (js ''type'') \<in> set envelope_types \<longrightarrow>
        getMessageType JSON_parse (JObj fs) = obj_get (JObj fs) (js ''type''))
   \<and> (\<forall>fs. obj_get (JObj fs) (js ''type'') \<in> set low_level_types \<longrightarrow>
        getMessageType JSON_parse (JObj fs) = JStr (js ''file''))
   \<and> (\<forall>fs. js ''type'' \<notin> fst ` set fs \<longrightarrow>
        getMessageType JSON_parse (JObj fs) = JStr (js ''file''))
   \<and> (\<forall>bs. getMessageType JSON_parse (JBuffer bs) = JStr (js ''file''))"
proof (intro conjI allI impI)
  fix s e assume "JSON_parse s = Inl e"
  then show "getMessageType JSON_parse (JStr s) = JStr (js ''text'')"
    by (simp add: getMessageType_string)
next
  fix s assume "JSON_parse s = Inr JNull"
  then show "getMessageType JSON_parse (JStr s) = JStr (js ''text'')"
    by (simp add: getMessageType_string)
next
  fix s fs
  assume "JSON_parse s = Inr (JObj fs) \<and> obj_get (JObj fs) (js ''type'') \<in> set envelope_types"
  then show "getMessageType JSON_parse (JStr s) = obj_get (JObj fs) (js ''type'')"
    by (simp add: getMessageType_string)
next
  fix s parsed
  assume "JSON_parse s = Inr parsed \<and> parsed \<noteq> JNull \<and> parsed \<noteq> JUndefined
          \<and> obj_get parsed (js ''type'') \<notin> set envelope_types"
  then show "getMessageType JSON_parse (JStr s) = JStr (js ''file'')"
    by (simp add: getMessageType_string)
next
  fix fs
  assume a: "obj_get (JObj fs) (js ''type'') \<in> set envelope_types"
  then have "obj_get (JObj fs) (js ''type'') \<noteq> JUndefined"
    by (auto simp: envelope_types_def)
  then obtain v where "map_of fs (js ''type'') = Some v"
    by (cases "map_of fs (js ''type'')") auto
  then have "(js ''type'', v) \<in> set fs" by (rule map_of_SomeD)
  then have "js ''type'' \<in> fst ` set fs" by force
  then show "getMessageType JSON_parse (JObj fs) = obj_get (JObj fs) (js ''type'')"
    using a low_not_envelope unfolding getMessageType_object by auto
next
  fix fs
  assume a: "obj_get (JObj fs) (js ''type'') \<in> set low_level_types"
  show "getMessageType JSON_parse (JObj fs) = JStr (js ''file'')"
    using a unfolding getMessageType_object by simp
next
  fix fs :: "(jsstring \<times> jsval) list"
  assume "js ''type'' \<notin> fst ` set fs"
  then show "getMessageType JSON_parse (JObj fs) = JStr (js ''file'')"
    unfolding getMessageType_object by simp
next
  fix bs
  show "getMessageType JSON_parse (JBuffer bs) = JStr (js ''file'')"
    by (rule getMessageType_buffer)
qed

theorem getMessageType_cases_witness:
  "getMessageType (\<lambda>s. Inl SyntaxError) (JStr (js ''hello'')) = JStr (js ''text'')
   \<and> getMessageType (\<lambda>s. Inr (JObj [(js ''type'', JStr (js ''handshake''))]))
        (JStr (js ''{\"type\":\"handshake\"}'')) = JStr (js ''handshake'')
   \<and> getMessageType (\<lambda>s. Inr (JObj [(js ''type'', JStr (js ''end''))]))
        (JStr (js ''{\"type\":\"end\"}'')) = JStr (js ''file'')
   \<and> getMessageType (\<lambda>s. Inl SyntaxError) (JObj [(js ''type'', JStr (js ''chunk''))])
        = JStr (js ''file'')
   \<and> getMessageType (\<lambda>s. Inl SyntaxError) (JBuffer [1, 2]) = JStr (js ''file'')"
proof -
  let ?fail = "\<lambda>s::jsstring. (Inl SyntaxError :: js_error + jsval)"
  let ?hs = "\<lambda>s::jsstring. (Inr (JObj [(js ''type'', JStr (js ''handshake''))]) :: js_error + jsval)"
  let ?en = "\<lambda>s::jsstring. (Inr (JObj [(js ''type'', JStr (js ''end''))]) :: js_error + jsval)"
  have h1: "?fail (js ''hello'') = Inl SyntaxError" by simp
  have h2: "?hs (js ''{\"type\":\"handshake\"}'') = Inr (JObj [(js ''type'', JStr (js ''handshake''))])
      \<and> obj_get (JObj [(js ''type'', JStr (js ''handshake''))]) (js ''type'') \<in> set envelope_types"
    by (simp add: envelope_types_def)
  have h3: "?en (js ''{\"type\":\"end\"}'') = Inr (JObj [(js ''type'', JStr (js ''end''))])
      \<and> JObj [(js ''type'', JStr (js ''end''))] \<noteq> JNull
      \<and> JObj [(js ''type'', JStr (js ''end''))] \<noteq> JUndefined
      \<and> obj_get (JObj [(js ''type'', JStr (js ''end''))]) (js ''type'') \<notin> set envelope_types"
    by (simp add: envelope_types_def js_inj)
  have h4: "obj_get (JObj [(js ''type'', JStr (js ''chunk''))]) (js ''type'') \<in> set low_level_types"
    by (simp add: low_level_types_def)
  from getMessageType_cases[of ?fail] h1
  have "getMessageType ?fail (JStr (js ''hello'')) = JStr (js ''text'')" by blast
  moreover from getMessageType_cases[of ?hs] h2
  have "getMessageType ?hs (JStr (js ''{\"type\":\"handshake\"}''))
          = obj_get (JObj [(js ''type'', JStr (js ''handshake''))]) (js ''type'')" by blast
  moreover from getMessageType_cases[of ?en] h3
  have "getMessageType ?en (JStr (js ''{\"type\":\"end\"}'')) = JStr (js ''file'')" by blast
  moreover from getMessageType_cases[of ?fail] h4
  have "getMessageType ?fail (JObj [(js ''type'', JStr (js ''chunk''))]) = JStr (js ''file'')"
    by blast
  moreover from getMessageType_cases[of ?fail]
  have "getMessageType ?fail (JBuffer [1, 2]) = JStr (js ''file'')" by blast
  ultimately show ?thesis by simp
qed

text \<open>
  The string \<open>hello\<close> is not JSON; it is classified as \<open>text\<close>, not as \<open>file\<close>.
\<close>

theorem getMessageType_counterexample:
  "getMessageType (\<lambda>s. Inl SyntaxError) (JStr (js ''hello'')) = JStr (js ''text'')
   \<and> JStr (js ''text'') \<noteq> JStr (js ''file'')"
  by (simp add: getMessageType_string js_inj)

subsection \<open>Identity remap\<close>

text \<open>
  Claim C3. Let a connection be registered under a provisional id, one that starts with
  \<open>manual-\<close>, and let its listener, which has not re-keyed yet, receive a handshake
  object whose data carries a non-empty device id different from the provisional one. Then
  the listener's id becomes the real id; the connection is registered under the real id
  and no longer under the provisional id; the connection state and the message handler
  registered under the provisional id, if any, are now under the real id, the state with
  its device id updated; the lookups under the provisional id find nothing and the lookup
  that \<open>receiveFile\<close> makes throws; and the one event published during the step, the
  handshake event, already sees the connection under the real id only.
\<close>

theorem handshake_remap:
  assumes prov: "startsWith prov (js ''manual-'')"
      and registered: "connections (reg mgr) (JStr prov) = Some conn"
      and handshake: "obj_get (JObj fs) (js ''type'') = JStr (js ''handshake'')"
      and data: "obj_get (JObj fs) (js ''data'') = hdata"
      and real: "obj_get hdata (js ''deviceId'') = JStr real" "real \<noteq> []"
      and distinct: "real \<noteq> prov"
  shows "\<exists>mgr'. onConnectionMessage JSON_parse now newId conn (JObj fs) (JStr prov, mgr)
                  = Inr (JStr real, mgr')
      \<and> connections (reg mgr') (JStr real) = Some conn
      \<and> connections (reg mgr') (JStr prov) = None
      \<and> connectionStates (reg mgr') (JStr prov) = None
      \<and> (\<forall>st. connectionStates (reg mgr) (JStr prov) = Some st \<longrightarrow>
            connectionStates (reg mgr') (JStr real) = Some (st\<lparr>cs_deviceId := JStr real\<rparr>))
      \<and> messageHandlers (reg mgr') (JStr prov) = None
      \<and> (\<forall>h. messageHandlers (reg mgr) (JStr prov) = Some h \<longrightarrow>
            messageHandlers (reg mgr') (JStr real) = Some h)
      \<and> getConnectionState mgr' (JStr prov) = None
      \<and> lookupP2PConnection mgr' (JStr prov) = Inl PlainError
      \<and> (\<forall>n. conn = P2PConnection n \<longrightarrow> lookupP2PConnection mgr' (JStr real) = Inr conn)
      \<and> (\<exists>seen. trace mgr' = trace mgr @ [Emitted (handshakeReceived (JStr real) hdata now) seen]
            \<and> connections seen (JStr real) = Some conn
            \<and> connections seen (JStr prov) = None)"
proof -
  let ?mgr' = "remap (JStr prov) (JStr real) conn hdata now mgr"
  have ty: "getMessageType JSON_parse (JObj fs) = JStr (js ''handshake'')"
    by (rule handshake_type_object[OF handshake])
  have tr: "truthy hdata"
    using real by (cases hdata) auto
  have step: "onConnectionMessage JSON_parse now newId conn (JObj fs) (JStr prov, mgr)
                  = Inr (JStr real, ?mgr')"
    using prov tr real data
    by (simp add: onConnectionMessage_def ty bindE_def Let_def)
  have ne: "JStr real \<noteq> JStr prov" using distinct by simp
  have c1: "connections (reg ?mgr') (JStr real) = Some conn"
    and c2: "connections (reg ?mgr') (JStr prov) = None"
    using ne by (simp_all add: remap_def Let_def emitEvent_def)
  have s1: "connectionStates (reg ?mgr') (JStr prov) = None"
    by (simp add: remap_def Let_def emitEvent_def split: option.splits)
  have s2: "\<forall>st. connectionStates (reg mgr) (JStr prov) = Some st \<longrightarrow>
            connectionStates (reg ?mgr') (JStr real) = Some (st\<lparr>cs_deviceId := JStr real\<rparr>)"
    using ne by (simp add: remap_def Let_def emitEvent_def)
  have h1: "messageHandlers (reg ?mgr') (JStr prov) = None"
    by (simp add: remap_def Let_def emitEvent_def split: option.splits)
  have h2: "\<forall>h. messageHandlers (reg mgr) (JStr prov) = Some h \<longrightarrow>
            messageHandlers (reg ?mgr') (JStr real) = Some h"
    using ne by (simp add: remap_def Let_def emitEvent_def)
  have l1: "getConnectionState ?mgr' (JStr prov) = None"
    using s1 by (simp add: getConnectionState_def)
  have l2: "lookupP2PConnection ?mgr' (JStr prov) = Inl PlainError"
    using c2 by (simp add: lookupP2PConnection_def)
  have l3: "\<forall>n. conn = P2PConnection n \<longrightarrow> lookupP2PConnection ?mgr' (JStr real) = Inr conn"
    using c1 by (auto simp: lookupP2PConnection_def)
  have at: "\<exists>seen. trace ?mgr' = trace mgr @ [Emitted (handshakeReceived (JStr real) hdata now) seen]
            \<and> connections seen (JStr real) = Some conn
            \<and> connections seen (JStr prov) = None"
    using ne by (simp add: remap_def Let_def emitEvent_def)
  show ?thesis
    using step c1 c2 s1 s2 h1 h2 l1 l2 l3 at by blast
qed

theorem handshake_remap_witness:
  "fst (projr (onConnectionMessage (\<lambda>s. Inl SyntaxError) 5 (js ''m1'') (P2PConnection 0)
        (JObj [(js ''type'', JStr (js ''handshake'')),
               (js ''data'', JObj [(js ''deviceId'', JStr (js ''real-42''))])])
        (JStr (js ''manual-temp-1''),
         \<lparr>reg = \<lparr>connections = [JStr (js ''manual-temp-1'') \<mapsto> P2PConnection 0],
                  connectionStates = [JStr (js ''manual-temp-1'') \<mapsto>
                     \<lparr>cs_type = WEBRTC, cs_status = StConnected,
                      cs_deviceId = JStr (js ''manual-temp-1''), cs_latency = None,
                      cs_lastActive = 0\<rparr>],
                  messageHandlers = [JStr (js ''manual-temp-1'') \<mapsto> 7]\<rparr>,
          trace = []\<rparr>))) = JStr (js ''real-42'')
   \<and> lookupP2PConnection (snd (projr (onConnectionMessage (\<lambda>s. Inl SyntaxError) 5 (js ''m1'')
        (P2PConnection 0)
        (JObj [(js ''type'', JStr (js ''handshake'')),
               (js ''data'', JObj [(js ''deviceId'', JStr (js ''real-42''))])])
        (JStr (js ''manual-temp-1''),
         \<lparr>reg = \<lparr>connections = [JStr (js ''manual-temp-1'') \<mapsto> P2PConnection 0],
                  connectionStates = [JStr (js ''manual-temp-1'') \<mapsto>
                     \<lparr>cs_type = WEBRTC, cs_status = StConnected,
                      cs_deviceId = JStr (js ''manual-temp-1''), cs_latency = None,
                      cs_lastActive = 0\<rparr>],
                  messageHandlers = [JStr (js ''manual-temp-1'') \<mapsto> 7]\<rparr>,
          trace = []\<rparr>)))) (JStr (js ''real-42'')) = Inr (P2PConnection 0)
   \<and> lookupP2PConnection (snd (projr (onConnectionMessage (\<lambda>s. Inl SyntaxError) 5 (js ''m1'')
        (P2PConnection 0)
        (JObj [(js ''type'', JStr (js ''handshake'')),
               (js ''data'', JObj [(js ''deviceId'', JStr (js ''real-42''))])])
        (JStr (js ''manual-temp-1''),
         \<lparr>reg = \<lparr>connections = [JStr (js ''manual-temp-1'') \<mapsto> P2PConnection 0],
                  connectionStates = [JStr (js ''manual-temp-1'') \<mapsto>
                     \<lparr>cs_type = WEBRTC, cs_status = StConnected,
                      cs_deviceId = JStr (js ''manual-temp-1''), cs_latency = None,
                      cs_lastActive = 0\<rparr>],
                  messageHandlers = [JStr (js ''manual-temp-1'') \<mapsto> 7]\<rparr>,
          trace = []\<rparr>)))) (JStr (js ''manual-temp-1'')) = Inl PlainError"
proof -
  let ?msg = "JObj [(js ''type'', JStr (js ''handshake'')),
               (js ''data'', JObj [(js ''deviceId'', JStr (js ''real-42''))])]"
  let ?mgr = "\<lparr>reg = \<lparr>connections = [JStr (js ''manual-temp-1'') \<mapsto> P2PConnection 0],
                  connectionStates = [JStr (js ''manual-temp-1'') \<mapsto>
                     \<lparr>cs_type = WEBRTC, cs_status = StConnected,
                      cs_deviceId = JStr (js ''manual-temp-1''), cs_latency = None,
                      cs_lastActive = 0\<rparr>],
                  messageHandlers = [JStr (js ''manual-temp-1'') \<mapsto> (7::nat)]\<rparr>,
          trace = []\<rparr>"
  have p: "startsWith (js ''manual-temp-1'') (js ''manual-'')"
    by (simp add: startsWith_def js_def)
  have r: "connections (reg ?mgr) (JStr (js ''manual-temp-1'')) = Some (P2PConnection 0)" by simp
  have ne: "js ''type'' \<noteq> js ''data''" by (simp add: js_inj)
  have t: "obj_get ?msg (js ''type'') = JStr (js ''handshake'')" by simp
  have d: "obj_get ?msg (js ''data'') = JObj [(js ''deviceId'', JStr (js ''real-42''))]"
    using ne by simp
  have i: "obj_get (JObj [(js ''deviceId'', JStr (js ''real-42''))]) (js ''deviceId'')
             = JStr (js ''real-42'')" by simp
  have n: "js ''real-42'' \<noteq> []" by (simp add: js_def)
  have x: "js ''real-42'' \<noteq> js ''manual-temp-1''" by (simp add: js_inj)
  from handshake_remap[OF p r t d i n x, of "\<lambda>s. Inl SyntaxError" 5 "js ''m1''"]
  obtain mgr' where
    "onConnectionMessage (\<lambda>s. Inl SyntaxError) 5 (js ''m1'') (P2PConnection 0) ?msg
        (JStr (js ''manual-temp-1''), ?mgr) = Inr (JStr (js ''real-42''), mgr')"
    "lookupP2PConnection mgr' (JStr (js ''manual-temp-1'')) = Inl PlainError"
    "lookupP2PConnection mgr' (JStr (js ''real-42'')) = Inr (P2PConnection 0)"
    by blast
  then show ?thesis by simp
qed

subsection \<open>Connecting with fallback\<close>




end
